theory Spec2Isabelle
  imports Main "HOL-Library.Word" "HOL-Library.Signed_Division"
begin

unbundle bit_operations_syntax

chapter \<open>The SPDY/3 response stream and the SYN\_STREAM codec\<close>

text \<open>
  A shallow embedding of \<^verbatim>\<open>spdy3/response_stream.go\<close> (the server-side stream
  engine) and of the \<^verbatim>\<open>SynStreamFrame\<close> codec of package \<^verbatim>\<open>frames\<close>.
  Go pointers that may be nil are \<open>option\<close> values, a panic and a goroutine that
  blocks forever are outcomes of their own, and the frames a stream submits to its
  output channel are collected in order.
\<close>

section \<open>Basic types\<close>

type_synonym byte = "8 word"

text \<open>
  \<^verbatim>\<open>http.Header\<close> is \<^verbatim>\<open>map[string][]string\<close>. Keys are held in the canonical
  form that \<^verbatim>\<open>Set\<close>, \<^verbatim>\<open>Add\<close> and \<^verbatim>\<open>Del\<close> give them; canonicalisation is the
  identity on such keys and on the pseudo-headers \<^verbatim>\<open>:status\<close> and \<^verbatim>\<open>:version\<close>.
\<close>

type_synonym Header = "string \<rightharpoonup> string list"

text \<open>
  Go \<^verbatim>\<open>error\<close> values. \<open>ErrorString\<close> is what \<^verbatim>\<open>errors.New\<close> builds, with the
  message of the source; the other constructors are the error values of package
  \<^verbatim>\<open>common\<close> that the source returns by name, the end of input met by
  \<^verbatim>\<open>ReadExactly\<close>, a writer that takes no more bytes, and the flow controller's
  refusal of a window update.
\<close>

datatype error =
    ErrorString string
  | EOF
  | WriterFull
  | IncorrectFrame
  | UnsupportedVersion
  | InvalidField
  | IncorrectDataLength int int
  | FrameTooLarge
  | StreamIdTooLarge
  | StreamIdIsZero
  | FlowControlError

section \<open>Package common: the parts the codec uses\<close>

text \<open>
  Modelled from the spec: \<^verbatim>\<open>common.MAX_FRAME_SIZE\<close> is not part of the source at
  hand. Section 6: ``\<^verbatim>\<open>MAX_FRAME_SIZE = 2^24 - 1\<close> bytes payload''.
\<close>

definition MAX_FRAME_SIZE :: int where
  "MAX_FRAME_SIZE = 2 ^ 24 - 1"

text \<open>
  Modelled from the spec: the flag constants of package \<^verbatim>\<open>common\<close>. Section 4.4:
  ``valid flags: \<^verbatim>\<open>FIN=0x01\<close>, \<^verbatim>\<open>UNIDIRECTIONAL=0x02\<close>''.
\<close>

definition FLAG_FIN :: byte where
  "FLAG_FIN = 1"

definition FLAG_UNIDIRECTIONAL :: byte where
  "FLAG_UNIDIRECTIONAL = 2"

definition FIN :: "byte \<Rightarrow> bool" where
  "FIN flags = (flags AND FLAG_FIN \<noteq> 0)"

definition UNIDIRECTIONAL :: "byte \<Rightarrow> bool" where
  "UNIDIRECTIONAL flags = (flags AND FLAG_UNIDIRECTIONAL \<noteq> 0)"

text \<open>
  Modelled from the spec: the frame type number of \<^verbatim>\<open>SYN_STREAM\<close>. Section 6:
  ``\<^verbatim>\<open>SYN_STREAM\<close> (type 1)''.
\<close>

definition SYN_STREAM :: nat where
  "SYN_STREAM = 1"

text \<open>
  Modelled from the spec: the methods of \<^verbatim>\<open>common.StreamID\<close>. Section 3: ``unsigned
  31-bit. Valid iff the high bit is clear. Zero is reserved''. \<open>B1\<close> to \<open>B4\<close> are
  the four bytes of the identifier, most significant first, as \<^verbatim>\<open>WriteTo\<close> lays
  them out at bytes 8 to 11.
\<close>

definition StreamID_Valid :: "32 word \<Rightarrow> bool" where
  "StreamID_Valid s = (\<not> bit s 31)"

definition StreamID_Zero :: "32 word \<Rightarrow> bool" where
  "StreamID_Zero s = (s = 0)"

definition StreamID_B1 :: "32 word \<Rightarrow> byte" where
  "StreamID_B1 s = ucast (drop_bit 24 s)"

definition StreamID_B2 :: "32 word \<Rightarrow> byte" where
  "StreamID_B2 s = ucast (drop_bit 16 s)"

definition StreamID_B3 :: "32 word \<Rightarrow> byte" where
  "StreamID_B3 s = ucast (drop_bit 8 s)"

definition StreamID_B4 :: "32 word \<Rightarrow> byte" where
  "StreamID_B4 s = ucast s"

text \<open>
  Modelled from the spec: \<^verbatim>\<open>Priority.Byte\<close>. Section 3: ``3-bit unsigned'';
  section 4.4: ``priority in high 3 bits of byte 16''.
\<close>

definition Priority_Byte :: "byte \<Rightarrow> byte" where
  "Priority_Byte p = push_bit 5 (p AND 7)"

text \<open>
  Modelled from the spec: \<^verbatim>\<open>common.BytesToUint24\<close> and \<^verbatim>\<open>common.BytesToUint32\<close>
  read a big-endian number, the byte order in which \<^verbatim>\<open>WriteTo\<close> writes the length
  and the identifiers. Every call of the source passes a slice of the right length.
\<close>

definition BytesToUint24 :: "byte list \<Rightarrow> nat" where
  "BytesToUint24 bs = unat (bs ! 0) * 65536 + unat (bs ! 1) * 256 + unat (bs ! 2)"

definition BytesToUint32 :: "byte list \<Rightarrow> 32 word" where
  "BytesToUint32 bs =
     push_bit 24 (ucast (bs ! 0)) OR push_bit 16 (ucast (bs ! 1))
       OR push_bit 8 (ucast (bs ! 2)) OR ucast (bs ! 3)"

text \<open>
  Modelled from the spec: \<^verbatim>\<open>common.ReadExactly\<close>. The reader is the sequence of bytes
  still to come; reading \<open>n\<close> bytes gives them and the rest, or fails when fewer
  than \<open>n\<close> are left.
\<close>

definition ReadExactly :: "byte list \<Rightarrow> nat \<Rightarrow> error + (byte list \<times> byte list)" where
  "ReadExactly reader n =
     (if length reader < n then Inl EOF else Inr (take n reader, drop n reader))"

text \<open>
  Modelled from the spec: \<^verbatim>\<open>common.WriteExactly\<close>. A writer holds the bytes written so
  far and the room it has left (\<open>None\<close>: unbounded, as a \<^verbatim>\<open>bytes.Buffer\<close>). A
  write that does not fit fails and leaves the writer as it was.
\<close>

record Writer =
  written :: "byte list"
  room :: "nat option"

definition WriteExactly :: "Writer \<Rightarrow> byte list \<Rightarrow> error + Writer" where
  "WriteExactly writer bs =
     (case room writer of
        None \<Rightarrow> Inr (writer\<lparr>written := written writer @ bs\<rparr>)
      | Some r \<Rightarrow>
          if r < length bs then Inl WriterFull
          else Inr (writer\<lparr>written := written writer @ bs, room := Some (r - length bs)\<rparr>))"

text \<open>
  Modelled from the spec: \<^verbatim>\<open>controlFrameCommonProcessing\<close> of package \<^verbatim>\<open>frames\<close>.
  Section 4.4: ``control bit + version(3) = 0x8003 at bytes 0-1; type = 1 at bytes
  2-3; flags byte at 4 (valid flags: \<^verbatim>\<open>FIN=0x01\<close>, \<^verbatim>\<open>UNIDIRECTIONAL=0x02\<close>)''. The
  source passes the first five bytes, the expected type and the flags it allows.
\<close>

definition controlFrameCommonProcessing :: "byte list \<Rightarrow> nat \<Rightarrow> byte \<Rightarrow> error option" where
  "controlFrameCommonProcessing data frameType flags =
     (if data ! 0 \<noteq> 128 then Some IncorrectFrame
      else if data ! 1 \<noteq> 3 then Some UnsupportedVersion
      else if unat (data ! 2) * 256 + unat (data ! 3) \<noteq> frameType then Some IncorrectFrame
      else if data ! 4 AND NOT flags \<noteq> 0 then Some InvalidField
      else None)"

section \<open>SynStreamFrame\<close>

record SynStreamFrame =
  Flags :: byte
  StreamID :: "32 word"
  AssocStreamID :: "32 word"
  Priority :: byte
  Slot :: byte
  Header :: "Header option"
  rawHeader :: "byte list option"

text \<open>
  \<^verbatim>\<open>ReadFrom\<close> gives the frame as it leaves it, the reader as it leaves it, the
  number of bytes it reports and the error (\<open>None\<close> for \<^verbatim>\<open>nil\<close>). The six
  fields are assigned before the identifiers are checked, as in the source.
\<close>

definition ReadFrom ::
  "SynStreamFrame \<Rightarrow> byte list \<Rightarrow> SynStreamFrame \<times> byte list \<times> int \<times> error option" where
  "ReadFrom frame reader =
     (case ReadExactly reader 18 of
        Inl err \<Rightarrow> (frame, [], 0, Some err)
      | Inr (data, reader1) \<Rightarrow>
          (case controlFrameCommonProcessing (take 5 data) SYN_STREAM
                  (FLAG_FIN OR FLAG_UNIDIRECTIONAL) of
             Some err \<Rightarrow> (frame, reader1, 18, Some err)
           | None \<Rightarrow>
               (let len = int (BytesToUint24 (take 3 (drop 5 data))) in
                if len < 10 then (frame, reader1, 18, Some (IncorrectDataLength len 10))
                else if len > MAX_FRAME_SIZE - 18 then (frame, reader1, 18, Some FrameTooLarge)
                else
                  (case ReadExactly reader1 (nat (len - 10)) of
                     Inl err \<Rightarrow> (frame, [], 18, Some err)
                   | Inr (header, reader2) \<Rightarrow>
                       (let frame' = frame\<lparr>
                              Flags := data ! 4,
                              StreamID := BytesToUint32 (take 4 (drop 8 data)),
                              AssocStreamID := BytesToUint32 (take 4 (drop 12 data)),
                              Priority := drop_bit 5 (data ! 16),
                              Slot := data ! 17,
                              rawHeader := Some header\<rparr>
                        in if \<not> StreamID_Valid (StreamID frame')
                             then (frame', reader2, 18, Some StreamIdTooLarge)
                           else if StreamID_Zero (StreamID frame')
                             then (frame', reader2, 18, Some StreamIdIsZero)
                           else if \<not> StreamID_Valid (AssocStreamID frame')
                             then (frame', reader2, 18, Some StreamIdTooLarge)
                           else (frame', reader2, len + 8, None))))))"

text \<open>
  \<^verbatim>\<open>WriteTo\<close> gives the writer as it leaves it, the number of bytes it reports and
  the error. \<^verbatim>\<open>byte(x)\<close> keeps the low eight bits of \<open>x\<close>.
\<close>

definition WriteTo :: "SynStreamFrame \<Rightarrow> Writer \<Rightarrow> Writer \<times> int \<times> error option" where
  "WriteTo frame writer =
     (case rawHeader frame of
        None \<Rightarrow> (writer, 0, Some (ErrorString ''Error: Headers not written.''))
      | Some header \<Rightarrow>
          if \<not> StreamID_Valid (StreamID frame) then (writer, 0, Some StreamIdTooLarge)
          else if StreamID_Zero (StreamID frame) then (writer, 0, Some StreamIdIsZero)
          else if \<not> StreamID_Valid (AssocStreamID frame) then (writer, 0, Some StreamIdTooLarge)
          else
            (let len = 10 + length header;
                 out = [128, 3, 0, 1,
                        Flags frame,
                        of_nat (drop_bit 16 len), of_nat (drop_bit 8 len), of_nat len,
                        StreamID_B1 (StreamID frame), StreamID_B2 (StreamID frame),
                        StreamID_B3 (StreamID frame), StreamID_B4 (StreamID frame),
                        StreamID_B1 (AssocStreamID frame), StreamID_B2 (AssocStreamID frame),
                        StreamID_B3 (AssocStreamID frame), StreamID_B4 (AssocStreamID frame),
                        Priority_Byte (Priority frame),
                        Slot frame]
             in case WriteExactly writer out of
                  Inl err \<Rightarrow> (writer, 0, Some err)
                | Inr writer1 \<Rightarrow>
                    (case WriteExactly writer1 header of
                       Inl err \<Rightarrow> (writer1, 18, Some err)
                     | Inr writer2 \<Rightarrow> (writer2, int (length header + 18), None))))"


section \<open>Package common: stream state, frames and header merge\<close>

text \<open>
  Modelled from the spec: \<^verbatim>\<open>common.StreamState\<close> is not part of the source at hand.
  Section 3: the four states \<^verbatim>\<open>OPEN\<close>, \<^verbatim>\<open>HALF_CLOSED_LOCAL\<close>,
  \<^verbatim>\<open>HALF_CLOSED_REMOTE\<close>, \<^verbatim>\<open>CLOSED\<close>; ``\<^verbatim>\<open>CloseHere\<close> moves
  \<^verbatim>\<open>OPEN\<close> to \<^verbatim>\<open>HALF_CLOSED_LOCAL\<close> and \<^verbatim>\<open>HALF_CLOSED_REMOTE\<close> to \<^verbatim>\<open>CLOSED\<close>.
  \<^verbatim>\<open>CloseThere\<close> moves \<^verbatim>\<open>OPEN\<close> to \<^verbatim>\<open>HALF_CLOSED_REMOTE\<close> and
  \<^verbatim>\<open>HALF_CLOSED_LOCAL\<close> to \<^verbatim>\<open>CLOSED\<close>. \<^verbatim>\<open>Close\<close> forces \<^verbatim>\<open>CLOSED\<close>.
  Re-applying an already-applied half-close is idempotent.'' The zero value that
  \<^verbatim>\<open>new(common.StreamState)\<close> gives is \<^verbatim>\<open>OPEN\<close>.
\<close>

datatype StreamState = OPEN | HALF_CLOSED_LOCAL | HALF_CLOSED_REMOTE | CLOSED

fun State_OpenHere :: "StreamState \<Rightarrow> bool" where
  "State_OpenHere OPEN = True"
| "State_OpenHere HALF_CLOSED_REMOTE = True"
| "State_OpenHere _ = False"

fun State_OpenThere :: "StreamState \<Rightarrow> bool" where
  "State_OpenThere OPEN = True"
| "State_OpenThere HALF_CLOSED_LOCAL = True"
| "State_OpenThere _ = False"

definition State_ClosedHere :: "StreamState \<Rightarrow> bool" where
  "State_ClosedHere st = (\<not> State_OpenHere st)"

definition State_ClosedThere :: "StreamState \<Rightarrow> bool" where
  "State_ClosedThere st = (\<not> State_OpenThere st)"

definition State_Closed :: "StreamState \<Rightarrow> bool" where
  "State_Closed st = (st = CLOSED)"

fun State_CloseHere :: "StreamState \<Rightarrow> StreamState" where
  "State_CloseHere OPEN = HALF_CLOSED_LOCAL"
| "State_CloseHere HALF_CLOSED_REMOTE = CLOSED"
| "State_CloseHere st = st"

fun State_CloseThere :: "StreamState \<Rightarrow> StreamState" where
  "State_CloseThere OPEN = HALF_CLOSED_REMOTE"
| "State_CloseThere HALF_CLOSED_LOCAL = CLOSED"
| "State_CloseThere st = st"

definition State_Close :: "StreamState \<Rightarrow> StreamState" where
  "State_Close st = CLOSED"

text \<open>
  Modelled from the spec: the status codes of \<^verbatim>\<open>RST_STREAM\<close> that section 7 names.
\<close>

datatype StatusCode =
    RST_STREAM_PROTOCOL_ERROR
  | RST_STREAM_INVALID_STREAM
  | RST_STREAM_FLOW_CONTROL_ERROR

text \<open>
  The frames the stream engine receives and sends, with the fields the source reads
  and writes: flags, stream identifier and header map or payload; for
  \<^verbatim>\<open>WINDOW_UPDATE\<close> the stream identifier and \<^verbatim>\<open>DeltaWindowSize\<close>; for
  \<^verbatim>\<open>RST_STREAM\<close> the stream identifier and the status. \<open>OtherFrame\<close> is a frame
  of any other Go type, with the name \<^verbatim>\<open>%T\<close> prints for it.
\<close>

datatype Frame =
    SYN_REPLY byte "32 word" Header
  | HEADERS byte "32 word" Header
  | DATA byte "32 word" "byte list"
  | WINDOW_UPDATE "32 word" "32 word"
  | RST_STREAM "32 word" StatusCode
  | OtherFrame string

fun frameFlags :: "Frame \<Rightarrow> byte" where
  "frameFlags (SYN_REPLY flags sid hdr) = flags"
| "frameFlags (HEADERS flags sid hdr) = flags"
| "frameFlags (DATA flags sid payload) = flags"
| "frameFlags _ = 0"

fun typeName :: "Frame \<Rightarrow> string" where
  "typeName (SYN_REPLY flags sid hdr) = ''*frames.SYN_REPLY''"
| "typeName (HEADERS flags sid hdr) = ''*frames.HEADERS''"
| "typeName (DATA flags sid payload) = ''*frames.DATA''"
| "typeName (WINDOW_UPDATE sid delta) = ''*frames.WINDOW_UPDATE''"
| "typeName (RST_STREAM sid status) = ''*frames.RST_STREAM''"
| "typeName (OtherFrame name) = name"

text \<open>
  Modelled from the spec: \<^verbatim>\<open>common.UpdateHeader\<close>. Section 4.3: ``Merge frame header
  map into pending headers''; an entry of the frame replaces the pending entry of the
  same name.
\<close>

definition UpdateHeader :: "Header \<Rightarrow> Header \<Rightarrow> Header" where
  "UpdateHeader older newer = older ++ newer"

text \<open>
  Modelled from the spec: \<^verbatim>\<open>common.MAX_DATA_SIZE\<close>. Section 4.2: ``No single outbound
  \<^verbatim>\<open>DATA\<close> payload exceeds \<^verbatim>\<open>MAX_DATA_SIZE\<close> (at most 2^24 - 1 by protocol; the
  engine uses 4 KiB by convention)''.
\<close>

definition MAX_DATA_SIZE :: nat where
  "MAX_DATA_SIZE = 4096"

section \<open>The flow controller\<close>

text \<open>
  Modelled from the spec: the type \<^verbatim>\<open>flowControl\<close> and its methods are not part of the
  source at hand. Section 3 gives its attributes: \<^verbatim>\<open>send_window\<close> and
  \<^verbatim>\<open>recv_window\<close> (signed, with an initial value negotiated for the connection), the
  \<^verbatim>\<open>paused\<close> flag and the \<^verbatim>\<open>pending\<close> buffer of bytes awaiting credit.
  \<open>flow_closed\<close> records that \<^verbatim>\<open>Close\<close> has been called. The methods give the
  controller as they leave it and the frames they put on the output sink; the stream
  identifier is the one of the stream the controller belongs to.
\<close>

record flowControl =
  send_window :: int
  recv_window :: int
  initial_window :: int
  paused :: bool
  pending :: "byte list"
  flow_closed :: bool

text \<open>A payload cut into \<^verbatim>\<open>DATA\<close> frames of at most \<^verbatim>\<open>MAX_DATA_SIZE\<close> bytes, without flags.\<close>

function dataFrames :: "32 word \<Rightarrow> byte list \<Rightarrow> Frame list" where
  "dataFrames sid bs =
     (if bs = [] then []
      else DATA 0 sid (take MAX_DATA_SIZE bs) # dataFrames sid (drop MAX_DATA_SIZE bs))"
  by pat_completeness auto
termination
  by (relation "measure (\<lambda>(sid, bs). length bs)") (auto simp: MAX_DATA_SIZE_def)

declare dataFrames.simps [simp del]

text \<open>
  Modelled from the spec, section 4.2: ``\<^verbatim>\<open>Write(bytes)\<close>: attempts to send bytes as one
  or more \<^verbatim>\<open>DATA\<close> frames. If \<^verbatim>\<open>send_window < len(bytes)\<close>, writes as much as fits,
  stashes the remainder in \<^verbatim>\<open>pending\<close>, sets \<^verbatim>\<open>paused = true\<close>, and returns with
  \<open>n\<close> equal to the number of bytes accepted (all bytes are accepted)''. While the
  controller is paused, bytes are queued behind the pending ones, which keeps the
  order of section 8, invariant 6. The spec gives no failure of \<^verbatim>\<open>Write\<close>.
\<close>

definition flow_Write ::
  "32 word \<Rightarrow> byte list \<Rightarrow> flowControl \<Rightarrow> flowControl \<times> Frame list \<times> int \<times> error option" where
  "flow_Write sid bs fl =
     (if paused fl then
        (fl\<lparr>pending := pending fl @ bs\<rparr>, [], int (length bs), None)
      else if send_window fl < int (length bs) then
        (fl\<lparr>send_window := send_window fl - int (length (take (nat (send_window fl)) bs)),
            pending := drop (nat (send_window fl)) bs,
            paused := True\<rparr>,
         dataFrames sid (take (nat (send_window fl)) bs), int (length bs), None)
      else
        (fl\<lparr>send_window := send_window fl - int (length bs)\<rparr>,
         dataFrames sid bs, int (length bs), None))"

text \<open>
  Modelled from the spec, sections 3 and 4.2: ``\<^verbatim>\<open>Receive(bytes)\<close>: records
  \<^verbatim>\<open>len(bytes)\<close> against \<^verbatim>\<open>recv_window\<close>; may enqueue a \<^verbatim>\<open>WINDOW_UPDATE\<close>
  outbound''; ``policy: replenish whenever it has drained by at least half the initial
  window''.
\<close>

definition flow_Receive :: "32 word \<Rightarrow> byte list \<Rightarrow> flowControl \<Rightarrow> flowControl \<times> Frame list" where
  "flow_Receive sid bs fl =
     (let w = recv_window fl - int (length bs) in
      if initial_window fl div 2 \<le> initial_window fl - w then
        (fl\<lparr>recv_window := initial_window fl\<rparr>,
         [WINDOW_UPDATE sid (word_of_int (initial_window fl - w))])
      else (fl\<lparr>recv_window := w\<rparr>, []))"

text \<open>
  Modelled from the spec, sections 4.2 and 8: ``\<^verbatim>\<open>UpdateWindow(delta)\<close>: adds
  \<^verbatim>\<open>delta\<close> to \<^verbatim>\<open>send_window\<close>. Fails with \<^verbatim>\<open>FLOW_CONTROL_ERROR\<close> if the sum would
  exceed 2^31 - 1. On success, if \<^verbatim>\<open>paused\<close> and the new credit permits, flushes pending
  bytes in FIFO order into outbound \<^verbatim>\<open>DATA\<close> frames; clears \<^verbatim>\<open>paused\<close> when the
  pending buffer drains''; a rejected update mutates nothing.
\<close>

definition flow_UpdateWindow ::
  "32 word \<Rightarrow> 32 word \<Rightarrow> flowControl \<Rightarrow> flowControl \<times> Frame list \<times> error option" where
  "flow_UpdateWindow sid delta fl =
     (if send_window fl + uint delta > 2 ^ 31 - 1 then (fl, [], Some FlowControlError)
      else if paused fl then
        (let w = send_window fl + uint delta;
             out = take (nat w) (pending fl);
             rest = drop (nat w) (pending fl)
         in (fl\<lparr>send_window := w - int (length out), pending := rest, paused := (rest \<noteq> [])\<rparr>,
             dataFrames sid out, None))
      else (fl\<lparr>send_window := send_window fl + uint delta\<rparr>, [], None))"

text \<open>
  Modelled from the spec, section 4.2: ``\<^verbatim>\<open>Flush()\<close>: unconditionally transmits pending
  as \<^verbatim>\<open>DATA\<close> (may exceed \<^verbatim>\<open>send_window\<close>)''; with the buffer drained the
  controller is no longer paused.
\<close>

definition flow_Flush :: "32 word \<Rightarrow> flowControl \<Rightarrow> flowControl \<times> Frame list" where
  "flow_Flush sid fl =
     (fl\<lparr>send_window := send_window fl - int (length (pending fl)), pending := [],
         paused := False\<rparr>,
      dataFrames sid (pending fl))"

definition flow_Paused :: "flowControl \<Rightarrow> bool" where
  "flow_Paused fl = paused fl"

definition flow_Close :: "flowControl \<Rightarrow> flowControl" where
  "flow_Close fl = fl\<lparr>flow_closed := True\<rparr>"

section \<open>ResponseStream\<close>

text \<open>
  What a call does besides changing the stream: it returns a value, it panics, or it
  blocks forever (a send on a nil channel, a receive from a channel nobody closes).
  Every method gives an outcome and the stream as the call leaves it.
\<close>

datatype 'a outcome = Returns 'a | Panics | Blocks

definition andThen ::
  "'a outcome \<times> 's \<Rightarrow> ('a \<Rightarrow> 's \<Rightarrow> 'b outcome \<times> 's) \<Rightarrow> 'b outcome \<times> 's" where
  "andThen m f =
     (case m of
        (Returns a, s) \<Rightarrow> f a s
      | (Panics, s) \<Rightarrow> (Panics, s)
      | (Blocks, s) \<Rightarrow> (Blocks, s))"

text \<open>
  The connection, as far as the stream reads it: its stop channel (\<open>None\<close>: nil;
  \<open>Some fired\<close>: a channel, closed or not). The request, as far as the stream
  touches it: its \<^verbatim>\<open>Body\<close>, nil or the reader of the stream's request-body buffer.
\<close>

record Conn =
  conn_stop :: "bool option"

datatype ReadCloser = ReadCloser_requestBody

record Request =
  Body :: "ReadCloser option"

text \<open>
  An \<^verbatim>\<open>http.Handler\<close> is the sequence of calls it makes on the
  \<^verbatim>\<open>http.ResponseWriter\<close> it is given: \<^verbatim>\<open>Write\<close>, \<^verbatim>\<open>WriteHeader\<close>,
  \<^verbatim>\<open>Header().Set\<close>, \<^verbatim>\<open>Header().Add\<close>, \<^verbatim>\<open>Header().Del\<close>, or a panic of its own.
  \<^verbatim>\<open>http.DefaultServeMux\<close> is a handler of the standard library; the calls it makes
  depend on the patterns registered with it and are a parameter of \<open>ServeHTTP\<close>.
\<close>

datatype HandlerCall =
    CallWrite "byte list"
  | CallWriteHeader int
  | CallHeaderSet string string
  | CallHeaderAdd string string
  | CallHeaderDel string
  | CallPanic

datatype Handler = DefaultServeMux | HandlerFunc "HandlerCall list"

text \<open>
  The struct of the source, field by field; \<^verbatim>\<open>sync.Mutex\<close> is left out (calls do not
  interleave here) and \<^verbatim>\<open>sync.Once\<close> is its done flag. A channel is its reference
  (\<open>None\<close>: nil) and its state: \<open>ready\<close> and \<open>stop\<close> are closed or not, and
  \<open>sent\<close>, which is not a field of the struct, holds the frames this stream and its
  flow controller have put on the output channel, oldest first. The output channel
  is unbounded (section 5), so a send on it returns. \<open>shutdowns\<close> is not a field
  of the struct either: it counts the executions of the method \<^verbatim>\<open>shutdown\<close>, which
  adds one to it when it is entered, and nothing else reads or writes it.
\<close>

record ResponseStream =
  shutdownOnce :: bool
  conn :: "Conn option"
  streamID :: "32 word"
  flow :: "flowControl option"
  requestBody :: "byte list option"
  state :: "StreamState option"
  "output" :: "unit option"
  request :: "Request option"
  handler :: "Handler option"
  header :: "Header option"
  priority :: byte
  unidirectional :: bool
  responseCode :: int
  stop :: "bool option"
  ready :: bool
  wroteHeader :: bool
  sent :: "Frame list"
  shutdowns :: nat

text \<open>\<^verbatim>\<open>strconv.Itoa\<close>: the decimal digits of an integer.\<close>

fun digitsOf :: "nat \<Rightarrow> string" where
  "digitsOf n =
     (if n < 10 then [''0123456789'' ! n]
      else digitsOf (n div 10) @ [''0123456789'' ! (n mod 10)])"

declare digitsOf.simps [simp del]

definition Itoa :: "int \<Rightarrow> string" where
  "Itoa i = (if i < 0 then CHR ''-'' # digitsOf (nat (- i)) else digitsOf (nat i))"

text \<open>\<^verbatim>\<open>s.output <- frame\<close>.\<close>

definition send :: "Frame \<Rightarrow> ResponseStream \<Rightarrow> unit outcome \<times> ResponseStream" where
  "send frame s =
     (case output s of
        None \<Rightarrow> (Blocks, s)
      | Some ch \<Rightarrow> (Returns (), s\<lparr>sent := sent s @ [frame]\<rparr>))"

text \<open>
  The loop that empties \<^verbatim>\<open>s.header\<close> into the header map of a new frame:
  \<^verbatim>\<open>for name, values := range s.header { for _, value := range values {
  f.Header.Add(name, value) }; s.header.Del(name) }\<close>. The new map gets every entry
  that has a value; \<^verbatim>\<open>s.header\<close> is left empty.
\<close>

definition sentHeader :: "Header \<Rightarrow> Header" where
  "sentHeader h =
     (\<lambda>name. case h name of
                None \<Rightarrow> None
              | Some values \<Rightarrow> if values = [] then None else Some values)"

definition WriteHeader :: "int \<Rightarrow> ResponseStream \<Rightarrow> unit outcome \<times> ResponseStream" where
  "WriteHeader code s =
     (if unidirectional s then (Returns (), s)
      else if wroteHeader s then (Returns (), s)
      else
        (let s1 = s\<lparr>wroteHeader := True, responseCode := code\<rparr> in
         case header s1 of
           None \<Rightarrow> (Panics, s1)
         | Some h \<Rightarrow>
             (let h' = h('':status'' \<mapsto> [Itoa code], '':version'' \<mapsto> [''HTTP/1.1'']);
                  s2 = s1\<lparr>header := Some Map.empty\<rparr>
              in if code = 204 \<or> code = 304 \<or> code sdiv 100 = 1 then
                   (case state s2 of
                      None \<Rightarrow> (Panics, s2)
                    | Some st \<Rightarrow>
                        send (SYN_REPLY FLAG_FIN (streamID s2) (sentHeader h'))
                          (s2\<lparr>state := Some (State_CloseHere st)\<rparr>))
                 else send (SYN_REPLY 0 (streamID s2) (sentHeader h')) s2)))"

definition closed :: "ResponseStream \<Rightarrow> bool" where
  "closed s =
     (if conn s = None \<or> state s = None \<or> handler s = None then True
      else (case stop s of
              Some True \<Rightarrow> True
            | _ \<Rightarrow> False))"

definition writeHeader :: "ResponseStream \<Rightarrow> unit outcome \<times> ResponseStream" where
  "writeHeader s =
     (case header s of
        None \<Rightarrow> (Returns (), s)
      | Some h \<Rightarrow>
          if h = Map.empty \<or> unidirectional s then (Returns (), s)
          else send (HEADERS 0 (streamID s) (sentHeader h)) (s\<lparr>header := Some Map.empty\<rparr>))"

text \<open>\<^verbatim>\<open>s.flow.Write(data)\<close>, with the frames the controller sends.\<close>

definition flowWrite ::
  "byte list \<Rightarrow> ResponseStream \<Rightarrow> (int \<times> error option) outcome \<times> ResponseStream" where
  "flowWrite data s =
     (case flow s of
        None \<Rightarrow> (Panics, s)
      | Some fl \<Rightarrow>
          (case flow_Write (streamID s) data fl of
             (fl', frames, n, err) \<Rightarrow>
               (Returns (n, err), s\<lparr>flow := Some fl', sent := sent s @ frames\<rparr>)))"

text \<open>The chunking loop of \<^verbatim>\<open>Write\<close> and the final \<^verbatim>\<open>s.flow.Write(data)\<close>.\<close>

function writeChunks ::
  "byte list \<Rightarrow> int \<Rightarrow> ResponseStream \<Rightarrow> (int \<times> error option) outcome \<times> ResponseStream" where
  "writeChunks data n_written s =
     (if length data > MAX_DATA_SIZE then
        (case flowWrite (take MAX_DATA_SIZE data) s of
           (Returns (n, Some err), s1) \<Rightarrow> (Returns (n_written, Some err), s1)
         | (Returns (n, None), s1) \<Rightarrow>
             writeChunks (drop MAX_DATA_SIZE data) (n_written + n) s1
         | (Panics, s1) \<Rightarrow> (Panics, s1)
         | (Blocks, s1) \<Rightarrow> (Blocks, s1))
      else
        (case flowWrite data s of
           (Returns (n, err), s1) \<Rightarrow> (Returns (n_written + n, err), s1)
         | (Panics, s1) \<Rightarrow> (Panics, s1)
         | (Blocks, s1) \<Rightarrow> (Blocks, s1)))"
  by pat_completeness auto
termination
  by (relation "measure (\<lambda>(data, n_written, s). length data)") (auto simp: MAX_DATA_SIZE_def)

declare writeChunks.simps [simp del]

definition Write ::
  "byte list \<Rightarrow> ResponseStream \<Rightarrow> (int \<times> error option) outcome \<times> ResponseStream" where
  "Write inputData s =
     (if unidirectional s then
        (Returns (0, Some (ErrorString ''Error: Stream is unidirectional.'')), s)
      else if closed s \<or> (case state s of None \<Rightarrow> True | Some st \<Rightarrow> State_ClosedHere st) then
        (Returns (0, Some (ErrorString ''Error: Stream already closed.'')), s)
      else
        andThen (if \<not> wroteHeader s then WriteHeader 200 s else (Returns (), s))
          (\<lambda>u s1. andThen (writeHeader s1)
             (\<lambda>u s2. writeChunks inputData 0 s2)))"

definition shutdown :: "ResponseStream \<Rightarrow> unit outcome \<times> ResponseStream" where
  "shutdown s =
     andThen (writeHeader (s\<lparr>shutdowns := shutdowns s + 1\<rparr>))
       (\<lambda>u s1. (Returns (),
          s1\<lparr>state := map_option State_Close (state s1),
             flow := map_option flow_Close (flow s1),
             requestBody := None,
             output := None,
             request := None,
             handler := None,
             header := None,
             stop := None\<rparr>))"

text \<open>
  \<^verbatim>\<open>s.shutdownOnce.Do(s.shutdown)\<close> runs \<^verbatim>\<open>shutdown\<close> when the done flag is not set
  and sets the flag when \<^verbatim>\<open>shutdown\<close> has returned. \<^verbatim>\<open>Close\<close> returns \<^verbatim>\<open>nil\<close>.
\<close>

definition Close :: "ResponseStream \<Rightarrow> error option outcome \<times> ResponseStream" where
  "Close s =
     (if shutdownOnce s then (Returns None, s)
      else andThen (shutdown s) (\<lambda>u s1. (Returns None, s1\<lparr>shutdownOnce := True\<rparr>)))"

text \<open>
  \<^verbatim>\<open>common.UpdateHeader(s.header, frame.Header)\<close> on the stream: an entry cannot be
  written into a nil map.
\<close>

definition updateHeader :: "Header \<Rightarrow> ResponseStream \<Rightarrow> unit outcome \<times> ResponseStream" where
  "updateHeader hdr s =
     (case header s of
        None \<Rightarrow> if hdr = Map.empty then (Returns (), s) else (Panics, s)
      | Some h \<Rightarrow> (Returns (), s\<lparr>header := Some (UpdateHeader h hdr)\<rparr>))"

text \<open>
  \<^verbatim>\<open>if frame.Flags.FIN() { select { case <-s.ready: default: close(s.ready) };
  s.state.CloseThere() }\<close>.
\<close>

definition finishRequest :: "byte \<Rightarrow> ResponseStream \<Rightarrow> error option outcome \<times> ResponseStream" where
  "finishRequest flags s =
     (if FIN flags then
        (case state s of
           None \<Rightarrow> (Panics, s\<lparr>ready := True\<rparr>)
         | Some st \<Rightarrow> (Returns None, s\<lparr>ready := True, state := Some (State_CloseThere st)\<rparr>))
      else (Returns None, s))"

fun ReceiveFrame :: "Frame option \<Rightarrow> ResponseStream \<Rightarrow> error option outcome \<times> ResponseStream" where
  "ReceiveFrame None s = (Returns (Some (ErrorString ''Error: Nil frame received.'')), s)"
| "ReceiveFrame (Some (DATA flags sid payload)) s =
     (case requestBody s of
        None \<Rightarrow> (Panics, s)
      | Some body \<Rightarrow>
          (let s1 = s\<lparr>requestBody := Some (body @ payload)\<rparr> in
           case flow s1 of
             None \<Rightarrow> (Panics, s1)
           | Some fl \<Rightarrow>
               (case flow_Receive (streamID s1) payload fl of
                  (fl', frames) \<Rightarrow>
                    finishRequest flags (s1\<lparr>flow := Some fl', sent := sent s1 @ frames\<rparr>))))"
| "ReceiveFrame (Some (SYN_REPLY flags sid hdr)) s =
     andThen (updateHeader hdr s) (\<lambda>u s1. finishRequest flags s1)"
| "ReceiveFrame (Some (HEADERS flags sid hdr)) s =
     andThen (updateHeader hdr s) (\<lambda>u s1. (Returns None, s1))"
| "ReceiveFrame (Some (WINDOW_UPDATE sid delta)) s =
     (case flow s of
        None \<Rightarrow> (Panics, s)
      | Some fl \<Rightarrow>
          (case flow_UpdateWindow (streamID s) delta fl of
             (fl', frames, err) \<Rightarrow>
               (let s1 = s\<lparr>flow := Some fl', sent := sent s @ frames\<rparr> in
                case err of
                  Some e \<Rightarrow>
                    andThen (send (RST_STREAM (streamID s1) RST_STREAM_FLOW_CONTROL_ERROR) s1)
                      (\<lambda>u s2. (Returns (Some e), s2))
                | None \<Rightarrow> (Returns None, s1))))"
| "ReceiveFrame (Some frame) s =
     (Returns (Some (ErrorString (''Received unknown frame of type '' @ typeName frame @ ''.''))),
      s)"

definition CloseNotify :: "ResponseStream \<Rightarrow> bool option" where
  "CloseNotify s = stop s"

text \<open>The calls of a handler on the stream, one after the other, up to the first that does not return.\<close>

fun call :: "HandlerCall \<Rightarrow> ResponseStream \<Rightarrow> unit outcome \<times> ResponseStream" where
  "call (CallWrite bs) s = andThen (Write bs s) (\<lambda>r s1. (Returns (), s1))"
| "call (CallWriteHeader code) s = WriteHeader code s"
| "call (CallHeaderSet name v) s =
     (case header s of
        None \<Rightarrow> (Panics, s)
      | Some h \<Rightarrow> (Returns (), s\<lparr>header := Some (h(name \<mapsto> [v]))\<rparr>))"
| "call (CallHeaderAdd name v) s =
     (case header s of
        None \<Rightarrow> (Panics, s)
      | Some h \<Rightarrow>
          (Returns (),
           s\<lparr>header := Some (h(name \<mapsto> (case h name of None \<Rightarrow> [] | Some vs \<Rightarrow> vs) @ [v]))\<rparr>))"
| "call (CallHeaderDel name) s =
     (case header s of
        None \<Rightarrow> (Returns (), s)
      | Some h \<Rightarrow> (Returns (), s\<lparr>header := Some (h(name := None))\<rparr>))"
| "call CallPanic s = (Panics, s)"

fun calls :: "HandlerCall list \<Rightarrow> ResponseStream \<Rightarrow> unit outcome \<times> ResponseStream" where
  "calls [] s = (Returns (), s)"
| "calls (c # cs) s = andThen (call c s) (\<lambda>u s1. calls cs s1)"

text \<open>\<^verbatim>\<open>s.handler.ServeHTTP(s, s.request)\<close>; \<open>mux\<close> is what \<^verbatim>\<open>http.DefaultServeMux\<close> does.\<close>

definition ServeHTTP :: "HandlerCall list \<Rightarrow> ResponseStream \<Rightarrow> unit outcome \<times> ResponseStream" where
  "ServeHTTP mux s =
     (case handler s of
        None \<Rightarrow> (Panics, s)
      | Some DefaultServeMux \<Rightarrow> calls mux s
      | Some (HandlerFunc cs) \<Rightarrow> calls cs s)"

text \<open>
  \<^verbatim>\<open>Run\<close>, in the order of the source. \<open>Run_prepare\<close> is the check that the request
  is prepared; a nil \<^verbatim>\<open>s.request\<close> panics, after \<^verbatim>\<open>s.requestBody\<close> has been
  replaced when it was nil.
\<close>

definition Run_prepare :: "ResponseStream \<Rightarrow> unit outcome \<times> ResponseStream" where
  "Run_prepare s =
     (case requestBody s of
        None \<Rightarrow>
          (case request s of
             None \<Rightarrow> (Panics, s\<lparr>requestBody := Some []\<rparr>)
           | Some r \<Rightarrow>
               (Returns (),
                s\<lparr>requestBody := Some [], request := Some (r\<lparr>Body := Some ReadCloser_requestBody\<rparr>)\<rparr>))
      | Some body \<Rightarrow>
          (case request s of
             None \<Rightarrow> (Panics, s)
           | Some r \<Rightarrow>
               if Body r = None then
                 (Returns (),
                  s\<lparr>requestBody := Some [],
                    request := Some (r\<lparr>Body := Some ReadCloser_requestBody\<rparr>)\<rparr>)
               else (Returns (), s)))"

text \<open>
  ``Make sure any queued data has been sent'': \<^verbatim>\<open>if s.flow.Paused() &&
  s.state.OpenThere() { s.flow.Flush() }\<close>; the message logged when the controller is
  still paused changes nothing.
\<close>

definition Run_flush :: "ResponseStream \<Rightarrow> unit outcome \<times> ResponseStream" where
  "Run_flush s =
     (case flow s of
        None \<Rightarrow> (Panics, s)
      | Some fl \<Rightarrow>
          if flow_Paused fl then
            (case state s of
               None \<Rightarrow> (Panics, s)
             | Some st \<Rightarrow>
                 if State_OpenThere st then
                   (case flow_Flush (streamID s) fl of
                      (fl', frames) \<Rightarrow>
                        (Returns (), s\<lparr>flow := Some fl', sent := sent s @ frames\<rparr>))
                 else (Returns (), s))
          else (Returns (), s))"

text \<open>
  The trailing frame: ``Close the stream with a \<^verbatim>\<open>SYN_REPLY\<close> if none has been sent,
  or an empty \<^verbatim>\<open>DATA\<close> frame, if a \<^verbatim>\<open>SYN_REPLY\<close> has been sent already. If the
  stream is already closed at this end, then nothing happens.''
\<close>

definition Run_trailing :: "ResponseStream \<Rightarrow> unit outcome \<times> ResponseStream" where
  "Run_trailing s =
     (if \<not> unidirectional s then
        (case state s of
           None \<Rightarrow> (Panics, s)
         | Some st \<Rightarrow>
             if State_OpenHere st \<and> \<not> wroteHeader s then
               (case header s of
                  None \<Rightarrow> (Panics, s)
                | Some h \<Rightarrow>
                    send (SYN_REPLY FLAG_FIN (streamID s)
                            (sentHeader (h('':status'' \<mapsto> [''200''], '':version'' \<mapsto> [''HTTP/1.1'']))))
                      (s\<lparr>header := Some Map.empty\<rparr>))
             else if State_OpenHere st then send (DATA FLAG_FIN (streamID s) []) s
             else (Returns (), s))
      else (Returns (), s))"

text \<open>``Clean up state'': \<^verbatim>\<open>s.state.CloseHere(); return nil\<close>.\<close>

definition Run_cleanup :: "ResponseStream \<Rightarrow> error option outcome \<times> ResponseStream" where
  "Run_cleanup s =
     (case state s of
        None \<Rightarrow> (Panics, s)
      | Some st \<Rightarrow> (Returns None, s\<lparr>state := Some (State_CloseHere st)\<rparr>))"

text \<open>What \<^verbatim>\<open>Run\<close> does once \<^verbatim>\<open>ServeHTTP\<close> has returned.\<close>

definition Run_finish :: "ResponseStream \<Rightarrow> error option outcome \<times> ResponseStream" where
  "Run_finish s =
     andThen (Run_flush s) (\<lambda>u s1. andThen (Run_trailing s1) (\<lambda>u s2. Run_cleanup s2))"

text \<open>
  What \<^verbatim>\<open>Run\<close> does once the receive \<^verbatim>\<open><-s.ready\<close> has returned: call the handler,
  finish.
\<close>

definition Run_serve ::
  "HandlerCall list \<Rightarrow> ResponseStream \<Rightarrow> error option outcome \<times> ResponseStream" where
  "Run_serve mux s = andThen (ServeHTTP mux s) (\<lambda>u s2. Run_finish s2)"

text \<open>
  The body of \<^verbatim>\<open>Run\<close>: prepare the request, wait for \<^verbatim>\<open>s.ready\<close> (forever, when
  nobody closes it), then go on as above.
\<close>

definition Run_body ::
  "HandlerCall list \<Rightarrow> ResponseStream \<Rightarrow> error option outcome \<times> ResponseStream" where
  "Run_body mux s =
     andThen (Run_prepare s)
       (\<lambda>u s1. if \<not> ready s1 then (Blocks, s1) else Run_serve mux s1)"

text \<open>
  \<^verbatim>\<open>Run\<close> with its deferred \<^verbatim>\<open>recover\<close>: a panic of the body is caught (and logged
  when the state is not closed), and \<^verbatim>\<open>Run\<close> returns the zero value \<^verbatim>\<open>nil\<close>; the
  stream stays as the panic left it.
\<close>

definition Run :: "HandlerCall list \<Rightarrow> ResponseStream \<Rightarrow> error option outcome \<times> ResponseStream" where
  "Run mux s =
     (case Run_body mux s of
        (Panics, s1) \<Rightarrow> (Returns None, s1)
      | r \<Rightarrow> r)"

definition State :: "ResponseStream \<Rightarrow> StreamState option" where
  "State s = state s"

text \<open>
  \<^verbatim>\<open>NewResponseStream\<close>. A nil \<^verbatim>\<open>frame\<close>, \<^verbatim>\<open>conn\<close> or \<^verbatim>\<open>request\<close> is
  dereferenced and panics. The flow controller is attached by the connection later;
  the constructor leaves \<^verbatim>\<open>flow\<close> nil. The request the stream keeps is the caller's,
  with its \<^verbatim>\<open>Body\<close> set.
\<close>

definition NewResponseStream ::
  "Conn option \<Rightarrow> SynStreamFrame option \<Rightarrow> unit option \<Rightarrow> Handler option \<Rightarrow> Request option
     \<Rightarrow> ResponseStream outcome" where
  "NewResponseStream conn_arg frame output_arg handler_arg request_arg =
     (case frame of
        None \<Rightarrow> Panics
      | Some f \<Rightarrow>
          (case conn_arg of
             None \<Rightarrow> Panics
           | Some c \<Rightarrow>
               (case request_arg of
                  None \<Rightarrow> Panics
                | Some r \<Rightarrow>
                    Returns
                      \<lparr>shutdownOnce = False,
                       conn = Some c,
                       streamID = StreamID f,
                       flow = None,
                       requestBody = Some [],
                       state = Some (if FIN (Flags f) then State_CloseThere OPEN else OPEN),
                       output = output_arg,
                       request = Some (r\<lparr>Body := Some ReadCloser_requestBody\<rparr>),
                       handler = Some (case handler_arg of None \<Rightarrow> DefaultServeMux | Some h \<Rightarrow> h),
                       header = Some Map.empty,
                       priority = Priority f,
                       unidirectional = UNIDIRECTIONAL (Flags f),
                       responseCode = 0,
                       stop = conn_stop c,
                       ready = FIN (Flags f),
                       wroteHeader = False,
                       sent = [],
                       shutdowns = 0\<rparr>)))"

text \<open>
  Modelled from the spec: the method by which the connection attaches the flow
  controller to a new stream is not part of the source at hand. Section 3: the
  windows start at the initial value of the connection (65536 by default); nothing is
  pending.
\<close>

definition newFlowControl :: "int \<Rightarrow> flowControl" where
  "newFlowControl w =
     \<lparr>send_window = w, recv_window = w, initial_window = w, paused = False, pending = [],
      flow_closed = False\<rparr>"

definition AddFlowControl :: "flowControl \<Rightarrow> ResponseStream \<Rightarrow> ResponseStream" where
  "AddFlowControl fl s = s\<lparr>flow := Some fl\<rparr>"

section \<open>Notions used in the statements\<close>

subsection \<open>The codec\<close>

text \<open>
  The fields of the fixed 18-byte prefix as \<^verbatim>\<open>ReadFrom\<close> decodes them from an input:
  the 24-bit length at bytes 5 to 7, the stream identifier at bytes 8 to 11, the
  associated stream identifier at bytes 12 to 15, and the outcome of the check of the
  first five bytes.
\<close>

definition lengthField :: "byte list \<Rightarrow> int" where
  "lengthField input = int (BytesToUint24 (take 3 (drop 5 input)))"

definition streamIDField :: "byte list \<Rightarrow> 32 word" where
  "streamIDField input = BytesToUint32 (take 4 (drop 8 input))"

definition assocStreamIDField :: "byte list \<Rightarrow> 32 word" where
  "assocStreamIDField input = BytesToUint32 (take 4 (drop 12 input))"

definition commonHeaderOK :: "byte list \<Rightarrow> bool" where
  "commonHeaderOK input =
     (controlFrameCommonProcessing (take 5 input) SYN_STREAM (FLAG_FIN OR FLAG_UNIDIRECTIONAL)
        = None)"

text \<open>
  The receiver once \<^verbatim>\<open>ReadFrom\<close> has assigned its six fields from an input (lines
  460 to 465 of the source): the flags byte, the two identifiers, the upper three
  bits of byte 16, byte 17, and the bytes the length field announces after the prefix.
\<close>

definition decodedFields :: "SynStreamFrame \<Rightarrow> byte list \<Rightarrow> SynStreamFrame" where
  "decodedFields frame input =
     frame\<lparr>Flags := input ! 4,
           StreamID := streamIDField input,
           AssocStreamID := assocStreamIDField input,
           Priority := drop_bit 5 (input ! 16),
           Slot := input ! 17,
           rawHeader := Some (take (nat (lengthField input - 10)) (drop 18 input))\<rparr>"

text \<open>The 18 bytes \<^verbatim>\<open>WriteTo\<close> puts before the header block, for a length field \<open>len\<close>.\<close>

definition prefixOf :: "SynStreamFrame \<Rightarrow> nat \<Rightarrow> byte list" where
  "prefixOf F len =
     [128, 3, 0, 1, Flags F,
      of_nat (drop_bit 16 len), of_nat (drop_bit 8 len), of_nat len,
      StreamID_B1 (StreamID F), StreamID_B2 (StreamID F),
      StreamID_B3 (StreamID F), StreamID_B4 (StreamID F),
      StreamID_B1 (AssocStreamID F), StreamID_B2 (AssocStreamID F),
      StreamID_B3 (AssocStreamID F), StreamID_B4 (AssocStreamID F),
      Priority_Byte (Priority F), Slot F]"

text \<open>
  Concrete values: the zero value \<^verbatim>\<open>new(SynStreamFrame)\<close>, an empty
  \<^verbatim>\<open>bytes.Buffer\<close>, and frames and inputs for the examples below.
\<close>

definition blankFrame :: SynStreamFrame where
  "blankFrame = \<lparr>Flags = 0, StreamID = 0, AssocStreamID = 0, Priority = 0, Slot = 0,
     Header = None, rawHeader = None\<rparr>"

definition newBuffer :: Writer where
  "newBuffer = \<lparr>written = [], room = None\<rparr>"

definition exampleFrame :: SynStreamFrame where
  "exampleFrame = \<lparr>Flags = 1, StreamID = 5, AssocStreamID = 0, Priority = 3, Slot = 0,
     Header = None, rawHeader = Some [120, 187]\<rparr>"

definition priority8Frame :: SynStreamFrame where
  "priority8Frame = \<lparr>Flags = 0, StreamID = 1, AssocStreamID = 0, Priority = 8, Slot = 0,
     Header = None, rawHeader = Some []\<rparr>"

definition unknownFlagFrame :: SynStreamFrame where
  "unknownFlagFrame = \<lparr>Flags = 4, StreamID = 1, AssocStreamID = 0, Priority = 0, Slot = 0,
     Header = None, rawHeader = Some []\<rparr>"

definition acceptedInput :: "byte list" where
  "acceptedInput = [128, 3, 0, 1, 1, 0, 0, 10, 0, 0, 0, 1, 0, 0, 0, 0, 96, 0]"

definition shortLengthInput :: "byte list" where
  "shortLengthInput = [128, 3, 0, 1, 1, 0, 0, 9, 0, 0, 0, 1, 0, 0, 0, 0, 96, 0]"

text \<open>
  A \<^verbatim>\<open>SYN_STREAM\<close> frame on the wire with flags 2, length 11, stream identifier 0,
  associated stream identifier 7, priority 7, slot 9 and a header block of one byte.
\<close>

definition zeroIDInput :: "byte list" where
  "zeroIDInput = [128, 3, 0, 1, 2, 0, 0, 11, 0, 0, 0, 0, 0, 0, 0, 7, 224, 9, 42]"

subsection \<open>The response stream\<close>

text \<open>
  The status codes of responses without a body, as \<^verbatim>\<open>WriteHeader\<close> tests them:
  \<^verbatim>\<open>code == 204 || code == 304 || code/100 == 1\<close>, with Go's truncating division.
\<close>

definition noBody :: "int \<Rightarrow> bool" where
  "noBody code = (code = 204 \<or> code = 304 \<or> code sdiv 100 = 1)"

text \<open>
  A connection whose stop channel is open, a request, and the stream that
  \<^verbatim>\<open>NewResponseStream\<close> builds for \<open>exampleFrame\<close> (stream 5, with \<^verbatim>\<open>FIN\<close>) once
  the connection has attached a flow controller with the default window.
\<close>

definition exampleConn :: Conn where
  "exampleConn = \<lparr>conn_stop = Some False\<rparr>"

definition exampleRequest :: Request where
  "exampleRequest = \<lparr>Body = None\<rparr>"

definition liveStream :: ResponseStream where
  "liveStream =
     \<lparr>shutdownOnce = False,
      conn = Some exampleConn,
      streamID = 5,
      flow = Some (newFlowControl 65536),
      requestBody = Some [],
      state = Some HALF_CLOSED_REMOTE,
      output = Some (),
      request = Some \<lparr>Body = Some ReadCloser_requestBody\<rparr>,
      handler = Some DefaultServeMux,
      header = Some Map.empty,
      priority = 3,
      unidirectional = False,
      responseCode = 0,
      stop = Some False,
      ready = True,
      wroteHeader = False,
      sent = [],
      shutdowns = 0\<rparr>"

text \<open>
  The stream of scenario 5 of the spec: \<^verbatim>\<open>send_window\<close> = 2^31 - 5, and the peer
  sends \<^verbatim>\<open>WINDOW_UPDATE\<close> with delta 10.
\<close>

definition nearlyFullStream :: ResponseStream where
  "nearlyFullStream = liveStream\<lparr>flow := Some ((newFlowControl 65536)\<lparr>send_window := 2 ^ 31 - 5\<rparr>)\<rparr>"

text \<open>
  \<open>n\<close> calls of \<^verbatim>\<open>Close\<close>, one after the other: the outcomes of the calls and the
  stream after the last. A call that does not return keeps the mutex, and the calls
  after it block on \<^verbatim>\<open>s.Lock()\<close>.
\<close>

fun CloseTimes :: "nat \<Rightarrow> ResponseStream \<Rightarrow> error option outcome list \<times> ResponseStream" where
  "CloseTimes 0 s = ([], s)"
| "CloseTimes (Suc n) s =
     (case Close s of
        (Returns r, s1) \<Rightarrow> (case CloseTimes n s1 of (rs, s2) \<Rightarrow> (Returns r # rs, s2))
      | (Panics, s1) \<Rightarrow> (Panics # replicate n Blocks, s1)
      | (Blocks, s1) \<Rightarrow> (Blocks # replicate n Blocks, s1))"

text \<open>
  The frames \<^verbatim>\<open>shutdown\<close> sends when it flushes the pending headers: one
  \<^verbatim>\<open>HEADERS\<close> frame when the header map is not empty and the stream is not
  unidirectional.
\<close>

definition flushedHeaders :: "ResponseStream \<Rightarrow> Frame list" where
  "flushedHeaders s =
     (case header s of
        None \<Rightarrow> []
      | Some h \<Rightarrow>
          if h = Map.empty \<or> unidirectional s then []
          else [HEADERS 0 (streamID s) (sentHeader h)])"

text \<open>
  The table of trailing frames of section 4.3 of the spec, for a stream with state
  \<open>st\<close> and pending header map \<open>h\<close>: none for a unidirectional stream; for
  \<^verbatim>\<open>OpenHere\<close> and not \<^verbatim>\<open>wroteHeader\<close>, a \<^verbatim>\<open>SYN_REPLY\<close> with \<^verbatim>\<open>FIN\<close>, status
  200, version HTTP/1.1 and the pending headers; for \<^verbatim>\<open>OpenHere\<close> and
  \<^verbatim>\<open>wroteHeader\<close>, a \<^verbatim>\<open>DATA\<close> frame with \<^verbatim>\<open>FIN\<close> and an empty payload; none
  when the local side is closed already.
\<close>

definition spec_trailing :: "ResponseStream \<Rightarrow> StreamState \<Rightarrow> Header \<Rightarrow> Frame list" where
  "spec_trailing s st h =
     (if unidirectional s then []
      else if State_OpenHere st \<and> \<not> wroteHeader s then
        [SYN_REPLY FLAG_FIN (streamID s)
           (sentHeader (h('':status'' \<mapsto> [''200''], '':version'' \<mapsto> [''HTTP/1.1''])))]
      else if State_OpenHere st \<and> wroteHeader s then [DATA FLAG_FIN (streamID s) []]
      else [])"

text \<open>
  The \<^verbatim>\<open>DATA\<close> frames \<^verbatim>\<open>Run\<close> sends before the trailing frame, when the flow
  controller is paused and the remote side is open: the pending bytes.
\<close>

definition flushedData :: "ResponseStream \<Rightarrow> flowControl \<Rightarrow> StreamState \<Rightarrow> Frame list" where
  "flushedData s fl st =
     (if flow_Paused fl \<and> State_OpenThere st then dataFrames (streamID s) (pending fl) else [])"

text \<open>The kinds of frame, and whether a frame carries \<^verbatim>\<open>FIN\<close>.\<close>

fun isSynReply :: "Frame \<Rightarrow> bool" where
  "isSynReply (SYN_REPLY flags sid hdr) = True"
| "isSynReply _ = False"

fun isData :: "Frame \<Rightarrow> bool" where
  "isData (DATA flags sid payload) = True"
| "isData _ = False"

definition carriesFIN :: "Frame \<Rightarrow> bool" where
  "carriesFIN frame = FIN (frameFlags frame)"

text \<open>A sequence of frames is empty or begins with a \<^verbatim>\<open>SYN_REPLY\<close>.\<close>

fun synReplyFirst :: "Frame list \<Rightarrow> bool" where
  "synReplyFirst [] = True"
| "synReplyFirst (frame # frames) = isSynReply frame"

text \<open>
  A stream that has sent nothing has not written its header; one that has sent
  something began with a \<^verbatim>\<open>SYN_REPLY\<close>.
\<close>

definition headerFirst :: "ResponseStream \<Rightarrow> bool" where
  "headerFirst s = (case sent s of [] \<Rightarrow> \<not> wroteHeader s | frame # frames \<Rightarrow> isSynReply frame)"

text \<open>The header has been written and the first frame sent is a \<^verbatim>\<open>SYN_REPLY\<close>.\<close>

definition replied :: "ResponseStream \<Rightarrow> bool" where
  "replied s = (wroteHeader s \<and> (case sent s of [] \<Rightarrow> False | frame # frames \<Rightarrow> isSynReply frame))"

text \<open>From \<open>s\<close> to \<open>s'\<close> frames were only added, and \<^verbatim>\<open>wroteHeader\<close> is as it was.\<close>

definition grows :: "ResponseStream \<Rightarrow> ResponseStream \<Rightarrow> bool" where
  "grows s s' = (wroteHeader s' = wroteHeader s \<and> (\<exists>frames. sent s' = sent s @ frames))"

text \<open>
  No frame of a sequence carries \<^verbatim>\<open>FIN\<close>; exactly one does, and it is the last of
  the sequence.
\<close>

definition noFIN :: "Frame list \<Rightarrow> bool" where
  "noFIN frames = (filter carriesFIN frames = [])"

definition oneFINLast :: "Frame list \<Rightarrow> bool" where
  "oneFINLast frames =
     (case rev frames of
        [] \<Rightarrow> False
      | frame # before \<Rightarrow> carriesFIN frame \<and> noFIN before)"

text \<open>The calls a handler makes, when it is invoked on the stream \<open>s\<close>.\<close>

definition handlerCalls :: "HandlerCall list \<Rightarrow> ResponseStream \<Rightarrow> HandlerCall list" where
  "handlerCalls mux s =
     (case handler s of
        None \<Rightarrow> []
      | Some DefaultServeMux \<Rightarrow> mux
      | Some (HandlerFunc cs) \<Rightarrow> cs)"

text \<open>
  The operations of the lifetime of a stream: a call of \<^verbatim>\<open>WriteHeader\<close>, of
  \<^verbatim>\<open>Write\<close>, of \<^verbatim>\<open>ReceiveFrame\<close> or of \<^verbatim>\<open>Run\<close>. An operation leaves the stream
  as the call leaves it, whether the call returns or not; a sequence of operations is
  performed in order, each on the stream the one before has left. The calls a
  handler makes while frames arrive are the calls of \<^verbatim>\<open>WriteHeader\<close> and
  \<^verbatim>\<open>Write\<close> of the sequence, between those of \<^verbatim>\<open>ReceiveFrame\<close>. A \<^verbatim>\<open>Run\<close>
  that finds \<^verbatim>\<open>s.ready\<close> open waits for ever; the \<^verbatim>\<open>Run\<close> of a stream whose
  request is completed by a later frame stands in the sequence where its wait ends.
\<close>

datatype Operation =
    OpWriteHeader int
  | OpWrite "byte list"
  | OpReceiveFrame "Frame option"
  | OpRun

fun isReceiveFrame :: "Operation \<Rightarrow> bool" where
  "isReceiveFrame (OpReceiveFrame frame) = True"
| "isReceiveFrame _ = False"

fun operation :: "HandlerCall list \<Rightarrow> Operation \<Rightarrow> ResponseStream \<Rightarrow> ResponseStream" where
  "operation mux (OpWriteHeader code) s = snd (WriteHeader code s)"
| "operation mux (OpWrite bs) s = snd (Write bs s)"
| "operation mux (OpReceiveFrame frame) s = snd (ReceiveFrame frame s)"
| "operation mux OpRun s = snd (Run mux s)"

fun operations :: "HandlerCall list \<Rightarrow> Operation list \<Rightarrow> ResponseStream \<Rightarrow> ResponseStream" where
  "operations mux [] s = s"
| "operations mux (x # xs) s = operations mux xs (operation mux x s)"

text \<open>
  The local side of the stream is open. The number of frames sent that carry
  \<^verbatim>\<open>FIN\<close>.
\<close>

definition localOpen :: "ResponseStream \<Rightarrow> bool" where
  "localOpen s = (case state s of None \<Rightarrow> False | Some st \<Rightarrow> State_OpenHere st)"

definition finCount :: "ResponseStream \<Rightarrow> nat" where
  "finCount s = length (filter carriesFIN (sent s))"

text \<open>
  A stream in service: its output channel, header map, flow controller and state are
  not nil, and \<^verbatim>\<open>s.ready\<close> is closed only when the remote side is closed, which is
  how \<^verbatim>\<open>NewResponseStream\<close> and \<^verbatim>\<open>ReceiveFrame\<close> leave the two.
\<close>

definition attached :: "ResponseStream \<Rightarrow> bool" where
  "attached s =
     (output s \<noteq> None \<and> header s \<noteq> None \<and> flow s \<noteq> None \<and>
      (case state s of None \<Rightarrow> False | Some st \<Rightarrow> ready s \<longrightarrow> \<not> State_OpenThere st))"

text \<open>
  The local side is closed and \<^verbatim>\<open>wroteHeader\<close> is not set: this is how \<^verbatim>\<open>Run\<close>
  leaves a stream that it has closed with a \<^verbatim>\<open>SYN_REPLY\<close> of its own.
\<close>

definition closedWithoutHeader :: "ResponseStream \<Rightarrow> bool" where
  "closedWithoutHeader s = (\<not> unidirectional s \<and> \<not> localOpen s \<and> \<not> wroteHeader s)"

text \<open>
  An operation calls \<^verbatim>\<open>WriteHeader\<close>: it is such a call, or it is a \<^verbatim>\<open>Run\<close> whose
  handler makes one. In a sequence of operations no call of \<^verbatim>\<open>WriteHeader\<close> is
  late: none is made on a stream whose local side is closed with \<^verbatim>\<open>wroteHeader\<close>
  not set.
\<close>

fun isWriteHeader :: "HandlerCall \<Rightarrow> bool" where
  "isWriteHeader (CallWriteHeader code) = True"
| "isWriteHeader _ = False"

fun callsWriteHeader :: "HandlerCall list \<Rightarrow> Operation \<Rightarrow> bool" where
  "callsWriteHeader script (OpWriteHeader code) = True"
| "callsWriteHeader script (OpWrite bs) = False"
| "callsWriteHeader script (OpReceiveFrame frame) = False"
| "callsWriteHeader script OpRun = list_ex isWriteHeader script"

fun noLateWriteHeader :: "HandlerCall list \<Rightarrow> Operation list \<Rightarrow> ResponseStream \<Rightarrow> bool" where
  "noLateWriteHeader mux [] s = True"
| "noLateWriteHeader mux (x # xs) s =
     ((callsWriteHeader (handlerCalls mux s) x \<longrightarrow> \<not> closedWithoutHeader s) \<and>
      noLateWriteHeader mux xs (operation mux x s))"

text \<open>
  From \<open>s\<close> to \<open>s'\<close> the frame with \<^verbatim>\<open>FIN\<close> stays last: if no frame sent
  carried \<^verbatim>\<open>FIN\<close>, then still none does, or exactly one does and it is the last
  frame sent; if one did, nothing has been sent since.
\<close>

definition keepsFinLast :: "ResponseStream \<Rightarrow> ResponseStream \<Rightarrow> bool" where
  "keepsFinLast s s' =
     (if noFIN (sent s) then noFIN (sent s') \<or> oneFINLast (sent s') else sent s' = sent s)"

text \<open>
  The condition that holds between the operations on a stream in service: while the
  local side is open, and on a unidirectional stream, no frame sent carries
  \<^verbatim>\<open>FIN\<close>; once the local side of a stream that is not unidirectional is closed,
  exactly one does. The same, after an accepted \<^verbatim>\<open>Write\<close> has written the header.
\<close>

definition finBalanced :: "ResponseStream \<Rightarrow> bool" where
  "finBalanced s =
     (attached s \<and>
      (if unidirectional s \<or> localOpen s then noFIN (sent s) else finCount s = 1))"

definition writing :: "ResponseStream \<Rightarrow> bool" where
  "writing s =
     (attached s \<and> \<not> unidirectional s \<and> localOpen s \<and> wroteHeader s \<and> noFIN (sent s))"

text \<open>
  What no operation undoes: from \<open>s\<close> to \<open>s'\<close> the stream is unidirectional or
  not as before, a closed local side stays closed, and \<^verbatim>\<open>s.ready\<close> stays closed.
  What no operation but \<^verbatim>\<open>shutdown\<close> touches: the handler is the same, and a
  request that was there is still there.
\<close>

definition later :: "ResponseStream \<Rightarrow> ResponseStream \<Rightarrow> bool" where
  "later s s' =
     (unidirectional s' = unidirectional s \<and> (localOpen s' \<longrightarrow> localOpen s) \<and>
      (ready s \<longrightarrow> ready s'))"

definition keepsHandler :: "ResponseStream \<Rightarrow> ResponseStream \<Rightarrow> bool" where
  "keepsHandler s s' = (handler s' = handler s \<and> (request s \<noteq> None \<longrightarrow> request s' \<noteq> None))"

text \<open>The stream \<^verbatim>\<open>NewResponseStream\<close> builds for a \<^verbatim>\<open>SYN_STREAM\<close> without \<^verbatim>\<open>FIN\<close>.\<close>

definition openStream :: ResponseStream where
  "openStream = liveStream\<lparr>state := Some OPEN, ready := False\<rparr>"

text \<open>
  Two streams on which \<^verbatim>\<open>Close\<close> has run while \<^verbatim>\<open>Run\<close> was under way (\<^verbatim>\<open>Run\<close>
  does not hold the mutex). On the first, \<^verbatim>\<open>Run\<close> has prepared the request and
  waits on \<^verbatim>\<open>s.ready\<close>; \<^verbatim>\<open>Close\<close> runs, and then a \<^verbatim>\<open>SYN_REPLY\<close> with
  \<^verbatim>\<open>FIN\<close> arrives and closes \<^verbatim>\<open>s.ready\<close>. On the second, \<^verbatim>\<open>s.ready\<close> was closed
  already, and \<^verbatim>\<open>Close\<close> runs after the receive from it and before the handler call.
\<close>

definition closedWhileWaiting :: ResponseStream where
  "closedWhileWaiting =
     snd (ReceiveFrame (Some (SYN_REPLY FLAG_FIN 5 Map.empty))
            (snd (Close (snd (Run_prepare openStream)))))"

definition closedBeforeServing :: ResponseStream where
  "closedBeforeServing = snd (Close (snd (Run_prepare liveStream)))"

section \<open>The codec: validation and round trip\<close>

lemma BytesToUint32_bytes:
  "BytesToUint32 [StreamID_B1 s, StreamID_B2 s, StreamID_B3 s, StreamID_B4 s] = s"
proof (rule bit_word_eqI)
  fix n assume n: "n < LENGTH(32)"
  consider "n < 8" | "8 \<le> n" "n < 16" | "16 \<le> n" "n < 24" | "24 \<le> n" "n < 32"
    using n by fastforce
  then show "bit (BytesToUint32 [StreamID_B1 s, StreamID_B2 s, StreamID_B3 s, StreamID_B4 s]) n
      = bit s n"
    unfolding BytesToUint32_def StreamID_B1_def StreamID_B2_def StreamID_B3_def StreamID_B4_def
    by cases (auto simp: bit_simps)
qed

lemma three_bytes_of_nat:
  assumes n: "(n::nat) < 2 ^ 24"
  shows "(n div 65536 mod 256) * 65536 + (n div 256 mod 256) * 256 + n mod 256 = n"
proof -
  define q where "q = n div 256 div 256"
  define r1 where "r1 = n div 256 mod 256"
  define r0 where "r0 = n mod 256"
  have a: "n div 65536 = q" by (simp add: q_def div_mult2_eq)
  have b: "q < 256" using n by (simp add: q_def)
  have c: "n div 256 = q * 256 + r1" by (simp add: q_def r1_def)
  have "n = (n div 256) * 256 + r0" by (simp add: r0_def)
  then have d: "n = (q * 256 + r1) * 256 + r0" using c by simp
  have "q mod 256 * 65536 + r1 * 256 + r0 = (q * 256 + r1) * 256 + r0"
    using b by simp
  then show ?thesis using a d unfolding r1_def [symmetric] r0_def [symmetric] by simp
qed

lemma BytesToUint24_bytes:
  "n < 2 ^ 24 \<Longrightarrow>
   BytesToUint24 [of_nat (drop_bit 16 n), of_nat (drop_bit 8 n), of_nat n] = n"
  using three_bytes_of_nat [of n]
  by (simp add: BytesToUint24_def unat_of_nat drop_bit_eq_div)

lemma Priority_Byte_drop_bit:
  assumes "p \<le> 7" shows "drop_bit 5 (Priority_Byte p) = p"
proof -
  have "p = 0 \<or> p = 1 \<or> p = 2 \<or> p = 3 \<or> p = 4 \<or> p = 5 \<or> p = 6 \<or> p = 7"
    using assms by unat_arith
  then show ?thesis
    by (auto simp: Priority_Byte_def)
qed

lemma controlFrameCommonProcessing_written:
  "flags AND NOT (FLAG_FIN OR FLAG_UNIDIRECTIONAL) = 0 \<Longrightarrow>
   controlFrameCommonProcessing [128, 3, 0, 1, flags] SYN_STREAM
     (FLAG_FIN OR FLAG_UNIDIRECTIONAL) = None"
  by (simp add: controlFrameCommonProcessing_def SYN_STREAM_def)

lemma WriteTo_newBuffer:
  assumes "rawHeader F = Some block"
      and "StreamID_Valid (StreamID F)" "\<not> StreamID_Zero (StreamID F)"
      and "StreamID_Valid (AssocStreamID F)"
  shows "WriteTo F newBuffer =
           (\<lparr>written = prefixOf F (10 + length block) @ block, room = None\<rparr>,
            int (length block) + 18, None)"
  using assms unfolding WriteTo_def WriteExactly_def prefixOf_def Let_def newBuffer_def
  by simp

lemma ReadFrom_prefixOf:
  assumes sid: "StreamID_Valid (StreamID F)" "\<not> StreamID_Zero (StreamID F)"
      and aid: "StreamID_Valid (AssocStreamID F)"
      and fl: "Flags F AND NOT (FLAG_FIN OR FLAG_UNIDIRECTIONAL) = 0"
      and pr: "Priority F \<le> 7"
      and n: "n < 2 ^ 24 - 18" "10 \<le> n" "length block = n - 10"
  shows "ReadFrom G (prefixOf F n @ block) =
           (G\<lparr>Flags := Flags F, StreamID := StreamID F, AssocStreamID := AssocStreamID F,
              Priority := Priority F, Slot := Slot F, rawHeader := Some block\<rparr>,
            [], int n + 8, None)"
proof -
  have n24: "n < 2 ^ 24" using n by simp
  have len: "BytesToUint24 [of_nat (drop_bit 16 n), of_nat (drop_bit 8 n), of_nat n] = n"
    using BytesToUint24_bytes [OF n24] .
  show ?thesis
    unfolding ReadFrom_def ReadExactly_def prefixOf_def Let_def
    using sid aid n
    by (simp add: controlFrameCommonProcessing_written [OF fl] len BytesToUint32_bytes
        Priority_Byte_drop_bit [OF pr] MAX_FRAME_SIZE_def)
qed

lemma fields_take18:
  assumes "18 \<le> length input"
  shows "BytesToUint24 (take 3 (drop 5 (take 18 input))) = BytesToUint24 (take 3 (drop 5 input))"
    and "BytesToUint32 (take 4 (drop 8 (take 18 input))) = BytesToUint32 (take 4 (drop 8 input))"
    and "BytesToUint32 (take 4 (drop 12 (take 18 input))) = BytesToUint32 (take 4 (drop 12 input))"
    and "take 5 (take 18 input) = take 5 input"
  using assms by (simp_all add: drop_take)

lemma ReadFrom_short:
  "length input < 18 \<Longrightarrow> ReadFrom frame input = (frame, [], 0, Some EOF)"
  by (simp add: ReadFrom_def ReadExactly_def)

lemma ReadFrom_long:
  assumes "18 \<le> length input"
  shows "snd (snd (ReadFrom frame input)) =
     (if \<not> commonHeaderOK input then
        (18, controlFrameCommonProcessing (take 5 input) SYN_STREAM
               (FLAG_FIN OR FLAG_UNIDIRECTIONAL))
      else if lengthField input < 10 then (18, Some (IncorrectDataLength (lengthField input) 10))
      else if lengthField input > MAX_FRAME_SIZE - 18 then (18, Some FrameTooLarge)
      else if int (length input) < lengthField input + 8 then (18, Some EOF)
      else if bit (streamIDField input) 31 then (18, Some StreamIdTooLarge)
      else if streamIDField input = 0 then (18, Some StreamIdIsZero)
      else if bit (assocStreamIDField input) 31 then (18, Some StreamIdTooLarge)
      else (lengthField input + 8, None))"
  using assms
  unfolding ReadFrom_def ReadExactly_def Let_def commonHeaderOK_def lengthField_def
    streamIDField_def assocStreamIDField_def StreamID_Valid_def StreamID_Zero_def
  by (auto simp: fields_take18 split: option.splits)

lemma ReadFrom_long_frame:
  assumes "18 \<le> length input"
  shows "fst (ReadFrom frame input) =
     (if commonHeaderOK input \<and> 10 \<le> lengthField input \<and>
         lengthField input \<le> MAX_FRAME_SIZE - 18 \<and>
         lengthField input + 8 \<le> int (length input)
      then decodedFields frame input else frame)"
  using assms
  unfolding ReadFrom_def ReadExactly_def Let_def commonHeaderOK_def lengthField_def
    streamIDField_def assocStreamIDField_def decodedFields_def
  by (auto simp: fields_take18 split: option.splits)

text \<open>
  C9 (as amended). \<^verbatim>\<open>ReadFrom\<close> returns no error exactly when the input holds the
  18-byte prefix with a valid control header, the 24-bit length field is at least 10
  and at most \<^verbatim>\<open>MAX_FRAME_SIZE - 18\<close>, the header block the length announces is all
  there, the stream identifier is not zero and has its high bit clear, and the
  associated stream identifier has its high bit clear; in every other case it returns
  an error, and when it succeeds it reports length + 8 bytes read. The receiver is
  left as it was when the prefix, the length or the header block is refused. Once the
  header block has been read the six fields of the receiver are assigned from the
  input, whether the identifiers are then accepted or refused: the frame is decoded
  into the receiver also when \<^verbatim>\<open>ReadFrom\<close> returns an identifier error.
\<close>

theorem ReadFrom_validates:
  "(snd (snd (snd (ReadFrom frame input))) = None) =
     (18 \<le> length input \<and> commonHeaderOK input \<and>
      10 \<le> lengthField input \<and> lengthField input \<le> MAX_FRAME_SIZE - 18 \<and>
      lengthField input + 8 \<le> int (length input) \<and>
      streamIDField input \<noteq> 0 \<and> \<not> bit (streamIDField input) 31 \<and>
      \<not> bit (assocStreamIDField input) 31)
   \<and> (snd (snd (snd (ReadFrom frame input))) = None \<longrightarrow>
        fst (snd (snd (ReadFrom frame input))) = lengthField input + 8)
   \<and> fst (ReadFrom frame input) =
       (if 18 \<le> length input \<and> commonHeaderOK input \<and>
           10 \<le> lengthField input \<and> lengthField input \<le> MAX_FRAME_SIZE - 18 \<and>
           lengthField input + 8 \<le> int (length input)
        then decodedFields frame input else frame)"
proof (cases "18 \<le> length input")
  case True
  have a: "(snd (snd (snd (ReadFrom frame input))) = None) =
     (18 \<le> length input \<and> commonHeaderOK input \<and>
      10 \<le> lengthField input \<and> lengthField input \<le> MAX_FRAME_SIZE - 18 \<and>
      lengthField input + 8 \<le> int (length input) \<and>
      streamIDField input \<noteq> 0 \<and> \<not> bit (streamIDField input) 31 \<and>
      \<not> bit (assocStreamIDField input) 31)
   \<and> (snd (snd (snd (ReadFrom frame input))) = None \<longrightarrow>
        fst (snd (snd (ReadFrom frame input))) = lengthField input + 8)"
    unfolding ReadFrom_long [OF True] commonHeaderOK_def
    by (auto split: if_splits)
  show ?thesis using a ReadFrom_long_frame [OF True, of frame] True by simp
next
  case False
  then show ?thesis by (simp add: ReadFrom_short)
qed

theorem ReadFrom_validates_witness:
  "lengthField acceptedInput = 10 \<and>
   snd (snd (snd (ReadFrom blankFrame acceptedInput))) = None \<and>
   fst (snd (snd (ReadFrom blankFrame acceptedInput))) = 18 \<and>
   fst (ReadFrom blankFrame acceptedInput) =
     blankFrame\<lparr>Flags := 1, StreamID := 1, Priority := 3, rawHeader := Some []\<rparr> \<and>
   lengthField shortLengthInput = 9 \<and>
   snd (snd (snd (ReadFrom blankFrame shortLengthInput))) \<noteq> None \<and>
   fst (ReadFrom blankFrame shortLengthInput) = blankFrame"
proof -
  have l1: "lengthField acceptedInput = 10"
    by (simp add: lengthField_def acceptedInput_def BytesToUint24_def)
  have l2: "lengthField shortLengthInput = 9"
    by (simp add: lengthField_def shortLengthInput_def BytesToUint24_def)
  have ok: "18 \<le> length acceptedInput \<and> commonHeaderOK acceptedInput \<and>
      lengthField acceptedInput + 8 \<le> int (length acceptedInput) \<and>
      streamIDField acceptedInput \<noteq> 0 \<and> \<not> bit (streamIDField acceptedInput) 31 \<and>
      \<not> bit (assocStreamIDField acceptedInput) 31"
    unfolding l1
    by (simp add: acceptedInput_def commonHeaderOK_def controlFrameCommonProcessing_def
        SYN_STREAM_def FLAG_FIN_def FLAG_UNIDIRECTIONAL_def streamIDField_def
        assocStreamIDField_def BytesToUint32_def)
  have d: "decodedFields blankFrame acceptedInput =
      blankFrame\<lparr>Flags := 1, StreamID := 1, Priority := 3, rawHeader := Some []\<rparr>"
    unfolding decodedFields_def l1
    by (simp add: acceptedInput_def blankFrame_def streamIDField_def assocStreamIDField_def
        BytesToUint32_def)
  have m: "(10::int) \<le> MAX_FRAME_SIZE - 18" "\<not> (10::int) \<le> 9"
    by (simp_all add: MAX_FRAME_SIZE_def)
  note t1 = ReadFrom_validates [of blankFrame acceptedInput]
  note t2 = ReadFrom_validates [of blankFrame shortLengthInput]
  have a1: "snd (snd (snd (ReadFrom blankFrame acceptedInput))) = None"
    using t1 ok l1 m by simp
  have a2: "fst (snd (snd (ReadFrom blankFrame acceptedInput))) = 18"
    using t1 a1 l1 by simp
  have a3: "fst (ReadFrom blankFrame acceptedInput) =
      blankFrame\<lparr>Flags := 1, StreamID := 1, Priority := 3, rawHeader := Some []\<rparr>"
    using t1 ok l1 m d by simp
  have b1: "snd (snd (snd (ReadFrom blankFrame shortLengthInput))) \<noteq> None"
    using t2 l2 m by simp
  have b2: "fst (ReadFrom blankFrame shortLengthInput) = blankFrame"
    using t2 l2 m by simp
  show ?thesis
    using l1 l2 a1 a2 a3 b1 b2 by blast
qed

text \<open>
  The claim as it was stated says that \<^verbatim>\<open>ReadFrom\<close> does not yield a frame when it
  returns an error. On a \<^verbatim>\<open>SYN_STREAM\<close> frame whose stream identifier is zero it
  returns \<^verbatim>\<open>StreamIdIsZero\<close>, and the receiver, which was the zero value, holds the
  flags, the associated stream identifier, the priority, the slot and the header
  block of the input.
\<close>

theorem ReadFrom_decodes_counterexample:
  "lengthField zeroIDInput = 11 \<and> streamIDField zeroIDInput = 0 \<and>
   ReadFrom blankFrame zeroIDInput =
     (blankFrame\<lparr>Flags := 2, AssocStreamID := 7, Priority := 7, Slot := 9,
                 rawHeader := Some [42]\<rparr>,
      [], 18, Some StreamIdIsZero) \<and>
   fst (ReadFrom blankFrame zeroIDInput) \<noteq> blankFrame"
  by (simp add: zeroIDInput_def blankFrame_def ReadFrom_def ReadExactly_def Let_def
      controlFrameCommonProcessing_def SYN_STREAM_def FLAG_FIN_def FLAG_UNIDIRECTIONAL_def
      StreamID_Valid_def StreamID_Zero_def BytesToUint24_def BytesToUint32_def MAX_FRAME_SIZE_def
      lengthField_def streamIDField_def)

text \<open>
  C8 (as amended). A \<^verbatim>\<open>SYN_STREAM\<close> frame with a compressed header block, a valid
  non-zero stream identifier and a valid associated stream identifier, whose flags
  lie within \<^verbatim>\<open>FIN|UNIDIRECTIONAL\<close>, whose priority is at most 7 and whose header
  block has at most \<^verbatim>\<open>MAX_FRAME_SIZE - 28\<close> bytes, is written without error, and
  reading the bytes written gives back its flags, stream identifier, associated
  stream identifier, priority, slot and raw header block, and reports all bytes read.
\<close>

theorem WriteTo_ReadFrom_roundtrip:
  assumes "rawHeader F = Some block"
      and "StreamID_Valid (StreamID F)" and "\<not> StreamID_Zero (StreamID F)"
      and "StreamID_Valid (AssocStreamID F)"
      and "Flags F AND NOT (FLAG_FIN OR FLAG_UNIDIRECTIONAL) = 0"
      and "Priority F \<le> 7"
      and "int (length block) \<le> MAX_FRAME_SIZE - 28"
  shows "snd (WriteTo F newBuffer) = (int (length block) + 18, None) \<and>
         ReadFrom G (written (fst (WriteTo F newBuffer))) =
           (G\<lparr>Flags := Flags F, StreamID := StreamID F, AssocStreamID := AssocStreamID F,
              Priority := Priority F, Slot := Slot F, rawHeader := Some block\<rparr>,
            [], int (length block) + 18, None)"
proof -
  have n: "10 + length block < 2 ^ 24 - 18" "10 \<le> 10 + length block"
      "length block = 10 + length block - 10"
    using assms(7) by (simp_all add: MAX_FRAME_SIZE_def)
  have r: "ReadFrom G (prefixOf F (10 + length block) @ block) =
           (G\<lparr>Flags := Flags F, StreamID := StreamID F, AssocStreamID := AssocStreamID F,
              Priority := Priority F, Slot := Slot F, rawHeader := Some block\<rparr>,
            [], int (10 + length block) + 8, None)"
    by (rule ReadFrom_prefixOf [OF assms(2-6) n])
  show ?thesis
    unfolding WriteTo_newBuffer [OF assms(1-4)] using r by simp
qed

theorem WriteTo_ReadFrom_roundtrip_witness:
  "rawHeader exampleFrame = Some [120, 187] \<and>
   StreamID_Valid (StreamID exampleFrame) \<and> \<not> StreamID_Zero (StreamID exampleFrame) \<and>
   StreamID_Valid (AssocStreamID exampleFrame) \<and>
   Flags exampleFrame AND NOT (FLAG_FIN OR FLAG_UNIDIRECTIONAL) = 0 \<and>
   Priority exampleFrame \<le> 7 \<and>
   snd (WriteTo exampleFrame newBuffer) = (20, None) \<and>
   ReadFrom blankFrame (written (fst (WriteTo exampleFrame newBuffer))) =
     (exampleFrame, [], 20, None)"
proof -
  have h: "rawHeader exampleFrame = Some [120, 187]"
      "StreamID_Valid (StreamID exampleFrame)" "\<not> StreamID_Zero (StreamID exampleFrame)"
      "StreamID_Valid (AssocStreamID exampleFrame)"
      "Flags exampleFrame AND NOT (FLAG_FIN OR FLAG_UNIDIRECTIONAL) = 0"
      "Priority exampleFrame \<le> 7"
      "int (length [120::byte, 187]) \<le> MAX_FRAME_SIZE - 28"
    by (simp_all add: exampleFrame_def StreamID_Valid_def StreamID_Zero_def FLAG_FIN_def
        FLAG_UNIDIRECTIONAL_def MAX_FRAME_SIZE_def)
  show ?thesis
    using WriteTo_ReadFrom_roundtrip [OF h, of blankFrame] h
    by (simp add: exampleFrame_def blankFrame_def)
qed

text \<open>
  The round trip as the claim states it, for every frame with valid identifiers and
  a compressed header block, fails. A frame with priority 8 is written and read back
  without error, with priority 0; a frame with flag bit \<open>0x04\<close> is written without
  error and refused by \<^verbatim>\<open>ReadFrom\<close>.
\<close>

theorem roundtrip_counterexample:
  "rawHeader priority8Frame = Some [] \<and>
   StreamID_Valid (StreamID priority8Frame) \<and> \<not> StreamID_Zero (StreamID priority8Frame) \<and>
   StreamID_Valid (AssocStreamID priority8Frame) \<and>
   snd (WriteTo priority8Frame newBuffer) = (18, None) \<and>
   snd (snd (ReadFrom blankFrame (written (fst (WriteTo priority8Frame newBuffer))))) =
     (18, None) \<and>
   Priority (fst (ReadFrom blankFrame (written (fst (WriteTo priority8Frame newBuffer))))) = 0 \<and>
   Priority priority8Frame = 8 \<and>
   rawHeader unknownFlagFrame = Some [] \<and>
   StreamID_Valid (StreamID unknownFlagFrame) \<and> \<not> StreamID_Zero (StreamID unknownFlagFrame) \<and>
   StreamID_Valid (AssocStreamID unknownFlagFrame) \<and>
   snd (WriteTo unknownFlagFrame newBuffer) = (18, None) \<and>
   snd (snd (ReadFrom blankFrame (written (fst (WriteTo unknownFlagFrame newBuffer))))) =
     (18, Some InvalidField)"
  by (simp add: priority8Frame_def unknownFlagFrame_def blankFrame_def newBuffer_def
      WriteTo_def WriteExactly_def ReadFrom_def ReadExactly_def Let_def
      controlFrameCommonProcessing_def SYN_STREAM_def FLAG_FIN_def FLAG_UNIDIRECTIONAL_def
      StreamID_Valid_def StreamID_Zero_def StreamID_B1_def StreamID_B2_def StreamID_B3_def
      StreamID_B4_def Priority_Byte_def BytesToUint24_def BytesToUint32_def MAX_FRAME_SIZE_def)

section \<open>The response stream: dispatch, response writer, shutdown and worker\<close>

lemma andThen_cases:
  "andThen m f = (case fst m of Returns a \<Rightarrow> f a (snd m) | Panics \<Rightarrow> (Panics, snd m)
                  | Blocks \<Rightarrow> (Blocks, snd m))"
  by (cases m) (auto simp: andThen_def split: outcome.splits)

lemma sdiv_100: "100 \<le> code \<Longrightarrow> code \<le> 199 \<Longrightarrow> (code::int) sdiv 100 = 1"
proof -
  assume a: "100 \<le> code" "code \<le> 199"
  have "code div 100 = 1" using a by (intro int_div_pos_eq [of code 100 1 "code - 100"]) auto
  then show ?thesis using a by (simp add: signed_divide_int_def sgn_if)
qed

lemma WriteHeader_sends:
  assumes "\<not> unidirectional s" "\<not> wroteHeader s" "header s = Some h" "state s = Some st"
    "output s = Some ch"
  shows "WriteHeader code s =
     (Returns (),
      s\<lparr>wroteHeader := True, responseCode := code, header := Some Map.empty,
        state := Some (if noBody code then State_CloseHere st else st),
        sent := sent s @ [SYN_REPLY (if noBody code then FLAG_FIN else 0) (streamID s)
           (sentHeader (h('':status'' \<mapsto> [Itoa code], '':version'' \<mapsto> [''HTTP/1.1''])))]\<rparr>)"
  using assms
  by (cases s) (simp add: WriteHeader_def Let_def send_def noBody_def)

lemma Run_trailing_closed_here:
  assumes "state s = Some st" "\<not> State_OpenHere st"
  shows "Run_trailing s = (Returns (), s)"
  using assms by (simp add: Run_trailing_def)

lemma CloseHere_closed: "\<not> State_OpenHere (State_CloseHere st)"
  by (cases st) simp_all

lemma ReceiveFrame_overflow:
  assumes "flow s = Some fl" "send_window fl + uint delta > 2 ^ 31 - 1" "output s = Some ch"
  shows "ReceiveFrame (Some (WINDOW_UPDATE sid delta)) s =
     (Returns (Some FlowControlError),
      s\<lparr>sent := sent s @ [RST_STREAM (streamID s) RST_STREAM_FLOW_CONTROL_ERROR]\<rparr>)"
  using assms
  by (cases s) (simp add: flow_UpdateWindow_def send_def andThen_def)

text \<open>
  C1 (as amended). When a \<^verbatim>\<open>WINDOW_UPDATE\<close> frame makes
  \<^verbatim>\<open>FlowController.UpdateWindow\<close> fail (the send window would exceed 2^31 - 1),
  \<^verbatim>\<open>ReceiveFrame\<close> puts exactly one \<^verbatim>\<open>RST_STREAM\<close> frame with status
  \<^verbatim>\<open>FLOW_CONTROL_ERROR\<close> and the stream's own identifier on the output channel and
  returns that error; the stream state and the flow controller are left as they were.
\<close>

theorem ReceiveFrame_window_overflow:
  assumes "flow s = Some fl" and "send_window fl + uint delta > 2 ^ 31 - 1"
      and "output s = Some ch"
  shows "fst (ReceiveFrame (Some (WINDOW_UPDATE sid delta)) s) = Returns (Some FlowControlError)
       \<and> sent (snd (ReceiveFrame (Some (WINDOW_UPDATE sid delta)) s)) =
           sent s @ [RST_STREAM (streamID s) RST_STREAM_FLOW_CONTROL_ERROR]
       \<and> state (snd (ReceiveFrame (Some (WINDOW_UPDATE sid delta)) s)) = state s
       \<and> flow (snd (ReceiveFrame (Some (WINDOW_UPDATE sid delta)) s)) = flow s"
  unfolding ReceiveFrame_overflow [OF assms] by simp

theorem ReceiveFrame_window_overflow_witness:
  "flow nearlyFullStream = Some ((newFlowControl 65536)\<lparr>send_window := 2 ^ 31 - 5\<rparr>) \<and>
   send_window ((newFlowControl 65536)\<lparr>send_window := 2 ^ 31 - 5\<rparr>) + uint (10 :: 32 word)
     > 2 ^ 31 - 1 \<and>
   output nearlyFullStream = Some () \<and>
   fst (ReceiveFrame (Some (WINDOW_UPDATE 5 10)) nearlyFullStream) = Returns (Some FlowControlError) \<and>
   sent (snd (ReceiveFrame (Some (WINDOW_UPDATE 5 10)) nearlyFullStream)) =
     [RST_STREAM 5 RST_STREAM_FLOW_CONTROL_ERROR] \<and>
   state (snd (ReceiveFrame (Some (WINDOW_UPDATE 5 10)) nearlyFullStream)) = Some HALF_CLOSED_REMOTE"
proof -
  have h: "flow nearlyFullStream = Some ((newFlowControl 65536)\<lparr>send_window := 2 ^ 31 - 5\<rparr>)"
    "send_window ((newFlowControl 65536)\<lparr>send_window := 2 ^ 31 - 5\<rparr>) + uint (10 :: 32 word)
       > 2 ^ 31 - 1"
    "output nearlyFullStream = Some ()"
    by (simp_all add: nearlyFullStream_def liveStream_def)
  show ?thesis
    using ReceiveFrame_window_overflow [OF h, of 5] h
    by (simp add: nearlyFullStream_def liveStream_def)
qed

text \<open>
  In scenario 5 of the spec the state after the refused update is not \<^verbatim>\<open>CLOSED\<close>:
  the stream stays half-closed on the remote side, as it was.
\<close>

theorem overflow_state_counterexample:
  "send_window ((newFlowControl 65536)\<lparr>send_window := 2 ^ 31 - 5\<rparr>) + uint (10 :: 32 word)
     > 2 ^ 31 - 1 \<and>
   ReceiveFrame (Some (WINDOW_UPDATE 5 10)) nearlyFullStream =
     (Returns (Some FlowControlError),
      nearlyFullStream\<lparr>sent := [RST_STREAM 5 RST_STREAM_FLOW_CONTROL_ERROR]\<rparr>) \<and>
   state (snd (ReceiveFrame (Some (WINDOW_UPDATE 5 10)) nearlyFullStream)) \<noteq> Some CLOSED"
  by (simp add: nearlyFullStream_def liveStream_def newFlowControl_def flow_UpdateWindow_def
      send_def andThen_def)

lemma noBody_codes: "code = 204 \<or> code = 304 \<or> (100 \<le> code \<and> code \<le> 199) \<Longrightarrow> noBody code"
  by (auto simp: noBody_def sdiv_100)

lemma Itoa_204: "Itoa 204 = ''204''"
  by (simp add: Itoa_def digitsOf.simps)

text \<open>
  C5. \<^verbatim>\<open>WriteHeader(code)\<close> with code 204, 304 or 100 to 199, on a stream that is not
  unidirectional and has not written its header, sends a \<^verbatim>\<open>SYN_REPLY\<close> that carries
  \<^verbatim>\<open>FIN\<close>, applies \<^verbatim>\<open>CloseHere\<close> to the state, which closes the local side, and
  the trailing-frame logic of \<^verbatim>\<open>Run\<close> then sends nothing.
\<close>

theorem WriteHeader_no_body:
  assumes "code = 204 \<or> code = 304 \<or> (100 \<le> code \<and> code \<le> 199)"
      and "\<not> unidirectional s" and "\<not> wroteHeader s"
      and "header s = Some h" and "state s = Some st" and "output s = Some ch"
  shows "fst (WriteHeader code s) = Returns () \<and>
         sent (snd (WriteHeader code s)) =
           sent s @ [SYN_REPLY FLAG_FIN (streamID s)
             (sentHeader (h('':status'' \<mapsto> [Itoa code], '':version'' \<mapsto> [''HTTP/1.1''])))] \<and>
         FIN FLAG_FIN \<and>
         state (snd (WriteHeader code s)) = Some (State_CloseHere st) \<and>
         State_ClosedHere (State_CloseHere st) \<and>
         Run_trailing (snd (WriteHeader code s)) = (Returns (), snd (WriteHeader code s))"
proof -
  have nb: "noBody code" using assms(1) by (rule noBody_codes)
  have w: "WriteHeader code s =
     (Returns (),
      s\<lparr>wroteHeader := True, responseCode := code, header := Some Map.empty,
        state := Some (State_CloseHere st),
        sent := sent s @ [SYN_REPLY FLAG_FIN (streamID s)
           (sentHeader (h('':status'' \<mapsto> [Itoa code], '':version'' \<mapsto> [''HTTP/1.1''])))]\<rparr>)"
    using WriteHeader_sends [OF assms(2-6), of code] nb by simp
  show ?thesis
    unfolding w
    by (simp add: FIN_def FLAG_FIN_def State_ClosedHere_def CloseHere_closed
        Run_trailing_closed_here [where st = "State_CloseHere st"])
qed

theorem WriteHeader_no_body_witness:
  "\<not> unidirectional liveStream \<and> \<not> wroteHeader liveStream \<and>
   header liveStream = Some Map.empty \<and> state liveStream = Some HALF_CLOSED_REMOTE \<and>
   output liveStream = Some () \<and>
   fst (WriteHeader 204 liveStream) = Returns () \<and>
   sent (snd (WriteHeader 204 liveStream)) =
     [SYN_REPLY FLAG_FIN 5
        (sentHeader (Map.empty('':status'' \<mapsto> [''204''], '':version'' \<mapsto> [''HTTP/1.1''])))] \<and>
   state (snd (WriteHeader 204 liveStream)) = Some CLOSED \<and>
   Run_trailing (snd (WriteHeader 204 liveStream)) = (Returns (), snd (WriteHeader 204 liveStream))"
proof -
  have h: "\<not> unidirectional liveStream" "\<not> wroteHeader liveStream"
    "header liveStream = Some Map.empty" "state liveStream = Some HALF_CLOSED_REMOTE"
    "output liveStream = Some ()"
    by (simp_all add: liveStream_def)
  have c: "(204::int) = 204 \<or> (204::int) = 304 \<or> (100 \<le> (204::int) \<and> (204::int) \<le> 199)"
    by simp
  show ?thesis
    using WriteHeader_no_body [OF c h] h
    by (simp add: Itoa_204 liveStream_def)
qed

lemma Write_unidirectional:
  "unidirectional s \<Longrightarrow>
   Write bs s = (Returns (0, Some (ErrorString ''Error: Stream is unidirectional.'')), s)"
  by (simp add: Write_def)

lemma Write_closed:
  "\<not> unidirectional s \<Longrightarrow>
   closed s \<or> (\<exists>st. state s = Some st \<and> State_ClosedHere st) \<Longrightarrow>
   Write bs s = (Returns (0, Some (ErrorString ''Error: Stream already closed.'')), s)"
  by (auto simp: Write_def)

lemma closed_iff:
  "closed s = (conn s = None \<or> state s = None \<or> handler s = None \<or> stop s = Some True)"
  by (auto simp: closed_def split: option.splits bool.splits)

lemma shutdown_handler:
  "fst (shutdown s0) = Returns () \<Longrightarrow> handler (snd (shutdown s0)) = None"
  by (auto simp: shutdown_def andThen_def split: prod.splits outcome.splits)

text \<open>
  C6. \<^verbatim>\<open>Write\<close> returns 0 and an error, and leaves the whole stream as it was (state,
  header map, \<^verbatim>\<open>wroteHeader\<close>, frames sent), when the stream is unidirectional
  (``Error: Stream is unidirectional.'') and, otherwise, when the stream is closed:
  the stop signal has fired, \<^verbatim>\<open>shutdown\<close> has run (which leaves the handler nil),
  or the local side is closed (``Error: Stream already closed.'').
\<close>

theorem Write_rejected:
  "(unidirectional s \<longrightarrow>
      Write bs s = (Returns (0, Some (ErrorString ''Error: Stream is unidirectional.'')), s)) \<and>
   (\<not> unidirectional s \<and>
      (stop s = Some True \<or> handler s = None \<or> (\<exists>st. state s = Some st \<and> State_ClosedHere st))
      \<longrightarrow> Write bs s = (Returns (0, Some (ErrorString ''Error: Stream already closed.'')), s)) \<and>
   (fst (shutdown s0) = Returns () \<longrightarrow> handler (snd (shutdown s0)) = None)"
  using Write_unidirectional [of s bs] Write_closed [of s bs] shutdown_handler [of s0]
  by (auto simp: closed_iff)

theorem Write_rejected_witness:
  "unidirectional (liveStream\<lparr>unidirectional := True\<rparr>) \<and>
   Write [104, 105] (liveStream\<lparr>unidirectional := True\<rparr>) =
     (Returns (0, Some (ErrorString ''Error: Stream is unidirectional.'')),
      liveStream\<lparr>unidirectional := True\<rparr>) \<and>
   \<not> unidirectional (liveStream\<lparr>stop := Some True\<rparr>) \<and>
   stop (liveStream\<lparr>stop := Some True\<rparr>) = Some True \<and>
   Write [104, 105] (liveStream\<lparr>stop := Some True\<rparr>) =
     (Returns (0, Some (ErrorString ''Error: Stream already closed.'')),
      liveStream\<lparr>stop := Some True\<rparr>) \<and>
   fst (shutdown liveStream) = Returns () \<and>
   handler (snd (shutdown liveStream)) = None"
proof -
  have sd: "fst (shutdown liveStream) = Returns ()"
    by (simp add: shutdown_def writeHeader_def andThen_def liveStream_def)
  show ?thesis
    using Write_rejected [of "liveStream\<lparr>unidirectional := True\<rparr>" "[104, 105]" liveStream]
      Write_rejected [of "liveStream\<lparr>stop := Some True\<rparr>" "[104, 105]" liveStream] sd
    by (simp add: liveStream_def)
qed

lemma Close_latched: "shutdownOnce s \<Longrightarrow> Close s = (Returns None, s)"
  by (simp add: Close_def)

lemma writeHeader_flushes:
  assumes "output s = Some ch \<or> flushedHeaders s = []"
  shows "writeHeader s =
     (Returns (),
      s\<lparr>header := (if flushedHeaders s = [] then header s else Some Map.empty),
        sent := sent s @ flushedHeaders s\<rparr>)"
  using assms
  by (cases s) (auto simp: writeHeader_def flushedHeaders_def send_def split: option.splits)

lemma shutdown_returns:
  assumes "output s = Some ch \<or> flushedHeaders s = []"
  shows "shutdown s =
     (Returns (),
      s\<lparr>state := map_option State_Close (state s),
        flow := map_option flow_Close (flow s),
        requestBody := None, output := None, request := None, handler := None,
        header := None, stop := None,
        sent := sent s @ flushedHeaders s,
        shutdowns := shutdowns s + 1\<rparr>)"
proof -
  define s' where "s' = s\<lparr>shutdowns := shutdowns s + 1\<rparr>"
  have f: "flushedHeaders s' = flushedHeaders s"
    by (simp add: flushedHeaders_def s'_def split: option.splits)
  have a: "output s' = Some ch \<or> flushedHeaders s' = []"
    using assms unfolding f by (simp add: s'_def)
  show ?thesis
    unfolding shutdown_def s'_def [symmetric] writeHeader_flushes [OF a] andThen_def f
    by (cases s) (simp add: s'_def)
qed

lemma CloseTimes_latched:
  "shutdownOnce s \<Longrightarrow> CloseTimes n s = (replicate n (Returns None), s)"
  by (induction n) (simp_all add: Close_latched)

lemma Close_first:
  assumes "\<not> shutdownOnce s" "output s = Some ch \<or> flushedHeaders s = []"
  shows "Close s = (Returns None, (snd (shutdown s))\<lparr>shutdownOnce := True\<rparr>)"
  using assms(1) unfolding Close_def shutdown_returns [OF assms(2)] andThen_def
  by simp

text \<open>
  C7. \<^verbatim>\<open>Close\<close> is idempotent. On a stream whose shutdown has not run (and whose
  pending headers can be flushed: the output channel is not nil, or there is nothing
  to flush), \<open>n\<close> calls of \<^verbatim>\<open>Close\<close>, for every \<open>n\<close> of at least 1, all return
  \<^verbatim>\<open>nil\<close>; the method \<^verbatim>\<open>shutdown\<close> is executed exactly once in the course of the
  \<open>n\<close> calls (the count of its executions goes up by one); and the stream is left as
  that one execution leaves it: pending headers flushed, state closed, flow
  controller closed, request body, request, handler, header map, output and stop
  references dropped.
\<close>

theorem Close_idempotent:
  assumes "\<not> shutdownOnce s" and "output s = Some ch \<or> flushedHeaders s = []" and "0 < n"
  shows "fst (CloseTimes n s) = replicate n (Returns None) \<and>
         shutdowns (snd (CloseTimes n s)) = shutdowns s + 1 \<and>
         snd (CloseTimes n s) =
           s\<lparr>shutdownOnce := True,
             state := map_option State_Close (state s),
             flow := map_option flow_Close (flow s),
             requestBody := None, output := None, request := None, handler := None,
             header := None, stop := None,
             sent := sent s @ flushedHeaders s,
             shutdowns := shutdowns s + 1\<rparr>"
proof -
  obtain m where n: "n = Suc m" using assms(3) by (cases n) auto
  let ?s1 = "(snd (shutdown s))\<lparr>shutdownOnce := True\<rparr>"
  have c: "Close s = (Returns None, ?s1)" by (rule Close_first [OF assms(1,2)])
  have l: "shutdownOnce ?s1" by simp
  have s1: "?s1 = s\<lparr>shutdownOnce := True,
             state := map_option State_Close (state s),
             flow := map_option flow_Close (flow s),
             requestBody := None, output := None, request := None, handler := None,
             header := None, stop := None,
             sent := sent s @ flushedHeaders s,
             shutdowns := shutdowns s + 1\<rparr>"
    unfolding shutdown_returns [OF assms(2)] by (cases s) simp
  have k: "shutdowns ?s1 = shutdowns s + 1"
    unfolding s1 by simp
  have t: "CloseTimes n s = (replicate n (Returns None), ?s1)"
    unfolding n by (simp add: c CloseTimes_latched [OF l])
  show ?thesis
    unfolding t using k s1 by simp
qed

theorem Close_idempotent_witness:
  "\<not> shutdownOnce (liveStream\<lparr>header := Some (Map.empty(''Server'' \<mapsto> [''spdy'']))\<rparr>) \<and>
   output (liveStream\<lparr>header := Some (Map.empty(''Server'' \<mapsto> [''spdy'']))\<rparr>) = Some () \<and>
   fst (CloseTimes 3 (liveStream\<lparr>header := Some (Map.empty(''Server'' \<mapsto> [''spdy'']))\<rparr>)) =
     [Returns None, Returns None, Returns None] \<and>
   shutdowns (liveStream\<lparr>header := Some (Map.empty(''Server'' \<mapsto> [''spdy'']))\<rparr>) = 0 \<and>
   shutdowns (snd (CloseTimes 3 (liveStream\<lparr>header := Some (Map.empty(''Server'' \<mapsto> [''spdy'']))\<rparr>))) =
     1 \<and>
   sent (snd (CloseTimes 3 (liveStream\<lparr>header := Some (Map.empty(''Server'' \<mapsto> [''spdy'']))\<rparr>))) =
     [HEADERS 0 5 (sentHeader (Map.empty(''Server'' \<mapsto> [''spdy''])))] \<and>
   state (snd (CloseTimes 3 (liveStream\<lparr>header := Some (Map.empty(''Server'' \<mapsto> [''spdy'']))\<rparr>))) =
     Some CLOSED \<and>
   handler (snd (CloseTimes 3 (liveStream\<lparr>header := Some (Map.empty(''Server'' \<mapsto> [''spdy'']))\<rparr>))) =
     None"
proof -
  let ?s = "liveStream\<lparr>header := Some (Map.empty(''Server'' \<mapsto> [''spdy'']))\<rparr>"
  have h: "\<not> shutdownOnce ?s" "output ?s = Some () \<or> flushedHeaders ?s = []" "0 < (3::nat)"
    by (simp_all add: liveStream_def)
  have f: "flushedHeaders ?s = [HEADERS 0 5 (sentHeader (Map.empty(''Server'' \<mapsto> [''spdy''])))]"
    by (simp add: flushedHeaders_def liveStream_def)
  have rep: "replicate 3 (Returns None :: error option outcome) =
      [Returns None, Returns None, Returns None]"
    by (simp add: numeral_3_eq_3)
  have s0: "sent ?s = []" "state ?s = Some HALF_CLOSED_REMOTE" "output ?s = Some ()"
      "shutdowns ?s = 0"
    by (simp_all add: liveStream_def)
  show ?thesis
    using Close_idempotent [OF h] h(1)
    by (simp add: f s0 rep State_Close_def)
qed

lemma Run_flush_live:
  assumes "flow s = Some fl" "state s = Some st"
  shows "Run_flush s =
     (Returns (),
      s\<lparr>flow := Some (if flow_Paused fl \<and> State_OpenThere st then fst (flow_Flush (streamID s) fl)
                       else fl),
        sent := sent s @ flushedData s fl st\<rparr>)"
  using assms
  by (cases s) (auto simp: Run_flush_def flushedData_def flow_Flush_def)

lemma Run_trailing_live:
  assumes "state s = Some st" "header s = Some h" "output s = Some ch"
  shows "Run_trailing s =
     (Returns (),
      s\<lparr>header := (if \<not> unidirectional s \<and> State_OpenHere st \<and> \<not> wroteHeader s
                     then Some Map.empty else Some h),
        sent := sent s @ spec_trailing s st h\<rparr>)"
  using assms
  by (cases s) (auto simp: Run_trailing_def spec_trailing_def send_def)

lemma Run_finish_live:
  assumes "flow s = Some fl" "state s = Some st" "header s = Some h" "output s = Some ch"
  shows "fst (Run_finish s) = Returns None \<and>
         sent (snd (Run_finish s)) = sent s @ flushedData s fl st @ spec_trailing s st h \<and>
         state (snd (Run_finish s)) = Some (State_CloseHere st)"
proof -
  define s1 where "s1 =
      s\<lparr>flow := Some (if flow_Paused fl \<and> State_OpenThere st then fst (flow_Flush (streamID s) fl)
                       else fl),
        sent := sent s @ flushedData s fl st\<rparr>"
  have f: "Run_flush s = (Returns (), s1)"
    unfolding s1_def by (rule Run_flush_live [OF assms(1,2)])
  have s1: "state s1 = Some st" "header s1 = Some h" "output s1 = Some ch"
    using assms by (simp_all add: s1_def)
  have s1': "sent s1 = sent s @ flushedData s fl st"
    by (simp add: s1_def)
  have t: "spec_trailing s1 st h = spec_trailing s st h"
    by (simp add: spec_trailing_def s1_def)
  show ?thesis
    unfolding Run_finish_def f andThen_def
    by (simp add: Run_trailing_live [OF s1] Run_cleanup_def s1 s1' t)
qed

text \<open>
  C2. When the handler invocation of \<^verbatim>\<open>Run\<close> returns (on a stream whose flow
  controller, state, header map and output channel are not nil), \<^verbatim>\<open>Run\<close> sends the
  pending bytes of a paused flow controller if the remote side is open, then the
  trailing frame of the table of section 4.3: for a stream that is not
  unidirectional, a \<^verbatim>\<open>SYN_REPLY\<close> with \<^verbatim>\<open>FIN\<close>, \<^verbatim>\<open>:status\<close> 200,
  \<^verbatim>\<open>:version\<close> HTTP/1.1 and the pending headers when the local side is open and no
  header was written, an empty \<^verbatim>\<open>DATA\<close> frame with \<^verbatim>\<open>FIN\<close> when the local side is
  open and the header was written, and no frame when the local side is closed; no
  frame for a unidirectional stream. In all cases it then applies \<^verbatim>\<open>CloseHere\<close> to
  the state and returns \<^verbatim>\<open>nil\<close>.
\<close>

theorem Run_trailing_frame:
  assumes "Run_prepare s = (Returns (), s1)" and "ready s1"
      and "ServeHTTP mux s1 = (Returns (), s2)"
      and "flow s2 = Some fl" and "state s2 = Some st" and "header s2 = Some h"
      and "output s2 = Some ch"
  shows "fst (Run mux s) = Returns None \<and>
         sent (snd (Run mux s)) = sent s2 @ flushedData s2 fl st @ spec_trailing s2 st h \<and>
         state (snd (Run mux s)) = Some (State_CloseHere st)"
proof -
  have b: "Run_body mux s = Run_finish s2"
    using assms(1-3) by (simp add: Run_body_def Run_serve_def andThen_def)
  have r: "Run mux s = Run_finish s2"
    using Run_finish_live [OF assms(4-7)] unfolding Run_def b
    by (cases "Run_finish s2") (auto split: outcome.splits)
  show ?thesis unfolding r by (rule Run_finish_live [OF assms(4-7)])
qed

theorem Run_trailing_frame_witness:
  "Run_prepare liveStream = (Returns (), liveStream) \<and> ready liveStream \<and>
   ServeHTTP [] liveStream = (Returns (), liveStream) \<and>
   flow liveStream = Some (newFlowControl 65536) \<and>
   state liveStream = Some HALF_CLOSED_REMOTE \<and> header liveStream = Some Map.empty \<and>
   output liveStream = Some () \<and>
   fst (Run [] liveStream) = Returns None \<and>
   sent (snd (Run [] liveStream)) =
     [SYN_REPLY FLAG_FIN 5
        (sentHeader (Map.empty('':status'' \<mapsto> [''200''], '':version'' \<mapsto> [''HTTP/1.1''])))] \<and>
   state (snd (Run [] liveStream)) = Some CLOSED"
proof -
  have h: "Run_prepare liveStream = (Returns (), liveStream)" "ready liveStream"
    "ServeHTTP [] liveStream = (Returns (), liveStream)"
    "flow liveStream = Some (newFlowControl 65536)"
    "state liveStream = Some HALF_CLOSED_REMOTE" "header liveStream = Some Map.empty"
    "output liveStream = Some ()"
    by (simp_all add: liveStream_def Run_prepare_def ServeHTTP_def)
  have e: "flushedData liveStream (newFlowControl 65536) HALF_CLOSED_REMOTE = []"
    "spec_trailing liveStream HALF_CLOSED_REMOTE Map.empty =
       [SYN_REPLY FLAG_FIN 5
          (sentHeader (Map.empty('':status'' \<mapsto> [''200''], '':version'' \<mapsto> [''HTTP/1.1''])))]"
    "sent liveStream = []"
    by (simp_all add: flushedData_def spec_trailing_def liveStream_def)
  show ?thesis
    using Run_trailing_frame [OF h] h by (simp add: e)
qed

lemma NewResponseStream_returns:
  "NewResponseStream (Some c) (Some f) out hdl (Some r) =
     Returns \<lparr>shutdownOnce = False, conn = Some c, streamID = StreamID f, flow = None,
       requestBody = Some [],
       state = Some (if FIN (Flags f) then State_CloseThere OPEN else OPEN),
       output = out, request = Some (r\<lparr>Body := Some ReadCloser_requestBody\<rparr>),
       handler = Some (case hdl of None \<Rightarrow> DefaultServeMux | Some h \<Rightarrow> h),
       header = Some Map.empty, priority = Priority f,
       unidirectional = UNIDIRECTIONAL (Flags f), responseCode = 0, stop = conn_stop c,
       ready = FIN (Flags f), wroteHeader = False, sent = [], shutdowns = 0\<rparr>"
  by (simp add: NewResponseStream_def)

lemma shutdown_drops:
  "fst (shutdown s0) = Returns () \<Longrightarrow>
   requestBody (snd (shutdown s0)) = None \<and> request (snd (shutdown s0)) = None"
  by (auto simp: shutdown_def andThen_def split: prod.splits outcome.splits)

lemma Run_snd: "snd (Run mux s) = snd (Run_body mux s)"
  by (cases "Run_body mux s") (auto simp: Run_def split: outcome.splits)

lemma Run_fst: "fst (Run_body mux s) = Returns r \<Longrightarrow> fst (Run mux s) = Returns r"
  by (cases "Run_body mux s") (auto simp: Run_def split: outcome.splits)

lemma keepsHandler_refl: "keepsHandler s s"
  by (simp add: keepsHandler_def)

lemma keepsHandler_trans: "keepsHandler s s1 \<Longrightarrow> keepsHandler s1 s2 \<Longrightarrow> keepsHandler s s2"
  by (auto simp: keepsHandler_def)

lemma WriteHeader_keepsHandler: "keepsHandler s (snd (WriteHeader code s))"
  by (auto simp: WriteHeader_def keepsHandler_def Let_def send_def split: option.splits)

lemma writeHeader_keepsHandler: "keepsHandler s (snd (writeHeader s))"
  by (auto simp: writeHeader_def keepsHandler_def send_def split: option.splits)

lemma flowWrite_keepsHandler: "keepsHandler s (snd (flowWrite bs s))"
  by (auto simp: flowWrite_def keepsHandler_def split: option.splits prod.splits)

lemma writeChunks_keepsHandler: "keepsHandler s (snd (writeChunks data n s))"
proof (induction data n s rule: writeChunks.induct)
  case (1 data n_written s)
  show ?case
  proof (cases "length data > MAX_DATA_SIZE")
    case True
    obtain o1 s1 where f: "flowWrite (take MAX_DATA_SIZE data) s = (o1, s1)"
      by (cases "flowWrite (take MAX_DATA_SIZE data) s") auto
    have k1: "keepsHandler s s1"
      using flowWrite_keepsHandler [of s "take MAX_DATA_SIZE data"] f by simp
    show ?thesis
    proof (cases "\<exists>m. o1 = Returns (m, None)")
      case True
      then obtain m where o1: "o1 = Returns (m, None)" by blast
      have f': "flowWrite (take MAX_DATA_SIZE data) s = (Returns (m, None), s1)"
        using f o1 by simp
      have ih: "keepsHandler s1 (snd (writeChunks (drop MAX_DATA_SIZE data) (n_written + m) s1))"
        using "1.IH" [OF \<open>length data > MAX_DATA_SIZE\<close> f' [symmetric] refl refl refl] .
      have e: "writeChunks data n_written s =
          writeChunks (drop MAX_DATA_SIZE data) (n_written + m) s1"
        using \<open>length data > MAX_DATA_SIZE\<close> f' by (subst writeChunks.simps) simp
      show ?thesis unfolding e by (rule keepsHandler_trans [OF k1 ih])
    next
      case False
      have e: "snd (writeChunks data n_written s) = s1"
        using \<open>length data > MAX_DATA_SIZE\<close> f False
        by (subst writeChunks.simps) (auto split: outcome.splits option.splits)
      show ?thesis unfolding e by (rule k1)
    qed
  next
    case False
    note k = flowWrite_keepsHandler [of s data]
    show ?thesis
      using False k
      by (subst writeChunks.simps) (auto split: prod.splits outcome.splits)
  qed
qed

lemma andThen_keepsHandler:
  assumes "keepsHandler s (snd m)" and "\<And>a s1. keepsHandler s1 (snd (f a s1))"
  shows "keepsHandler s (snd (andThen m f))"
proof (cases "fst m")
  case (Returns a)
  then have e: "andThen m f = f a (snd m)" by (simp add: andThen_cases)
  show ?thesis
    unfolding e by (rule keepsHandler_trans [OF assms(1) assms(2)])
next
  case Panics
  then show ?thesis using assms(1) by (simp add: andThen_cases)
next
  case Blocks
  then show ?thesis using assms(1) by (simp add: andThen_cases)
qed

lemma Write_keepsHandler: "keepsHandler s (snd (Write bs s))"
proof -
  have a: "keepsHandler s (snd (if \<not> wroteHeader s then WriteHeader 200 s else (Returns (), s)))"
    by (simp add: WriteHeader_keepsHandler keepsHandler_refl)
  have b: "\<And>u s1. keepsHandler s1 (snd (andThen (writeHeader s1) (\<lambda>u s2. writeChunks bs 0 s2)))"
    by (rule andThen_keepsHandler [OF writeHeader_keepsHandler writeChunks_keepsHandler])
  have c: "keepsHandler s
      (snd (andThen (if \<not> wroteHeader s then WriteHeader 200 s else (Returns (), s))
         (\<lambda>u s1. andThen (writeHeader s1) (\<lambda>u s2. writeChunks bs 0 s2))))"
    by (rule andThen_keepsHandler [OF a b])
  show ?thesis
    unfolding Write_def using c by (simp add: keepsHandler_refl)
qed

lemma call_keepsHandler: "keepsHandler s (snd (call c s))"
proof (cases c)
  case (CallWrite bs)
  have "keepsHandler s (snd (andThen (Write bs s) (\<lambda>r s1. (Returns (), s1))))"
    by (rule andThen_keepsHandler [OF Write_keepsHandler]) (simp add: keepsHandler_refl)
  then show ?thesis using CallWrite by simp
next
  case (CallWriteHeader code)
  then show ?thesis by (simp add: WriteHeader_keepsHandler)
next
  case (CallHeaderSet name v)
  then show ?thesis by (auto simp: keepsHandler_def split: option.splits)
next
  case (CallHeaderAdd name v)
  then show ?thesis by (auto simp: keepsHandler_def split: option.splits)
next
  case (CallHeaderDel name)
  then show ?thesis by (auto simp: keepsHandler_def split: option.splits)
next
  case CallPanic
  then show ?thesis by (simp add: keepsHandler_refl)
qed

lemma calls_keepsHandler: "keepsHandler s (snd (calls cs s))"
proof (induction cs arbitrary: s)
  case Nil
  then show ?case by (simp add: keepsHandler_refl)
next
  case (Cons c cs)
  have "keepsHandler s (snd (andThen (call c s) (\<lambda>u s1. calls cs s1)))"
    by (rule andThen_keepsHandler [OF call_keepsHandler]) (rule Cons.IH)
  then show ?case by simp
qed

lemma ReceiveFrame_keepsHandler: "keepsHandler s (snd (ReceiveFrame frame s))"
  by (cases "(frame, s)" rule: ReceiveFrame.cases)
     (auto simp: keepsHandler_def andThen_def updateHeader_def finishRequest_def send_def Let_def
           split: option.splits prod.splits outcome.splits if_splits)

lemma Run_prepare_keepsHandler: "keepsHandler s (snd (Run_prepare s))"
  by (auto simp: Run_prepare_def keepsHandler_def split: option.splits)

lemma Run_prepare_returns:
  "request s \<noteq> None \<Longrightarrow> fst (Run_prepare s) = Returns ()"
  by (auto simp: Run_prepare_def split: option.splits)

lemma ServeHTTP_keepsHandler: "keepsHandler s (snd (ServeHTTP mux s))"
  by (auto simp: ServeHTTP_def calls_keepsHandler keepsHandler_refl
      split: option.splits Handler.splits)

lemma Run_finish_keepsHandler: "keepsHandler s (snd (Run_finish s))"
proof -
  have f: "\<And>s. keepsHandler s (snd (Run_flush s))"
    by (auto simp: Run_flush_def keepsHandler_def split: option.splits prod.splits)
  have t: "\<And>s. keepsHandler s (snd (Run_trailing s))"
    by (auto simp: Run_trailing_def keepsHandler_def send_def split: option.splits)
  have c: "\<And>s. keepsHandler s (snd (Run_cleanup s))"
    by (auto simp: Run_cleanup_def keepsHandler_def split: option.splits)
  have "\<And>u s1. keepsHandler s1 (snd (andThen (Run_trailing s1) (\<lambda>u s2. Run_cleanup s2)))"
    by (rule andThen_keepsHandler [OF t c])
  then show ?thesis
    unfolding Run_finish_def by (rule andThen_keepsHandler [OF f])
qed

lemma Run_keepsHandler: "keepsHandler s (snd (Run mux s))"
proof -
  have sv: "\<And>s1. keepsHandler s1 (snd (Run_serve mux s1))"
    unfolding Run_serve_def
    by (rule andThen_keepsHandler [OF ServeHTTP_keepsHandler Run_finish_keepsHandler])
  have "\<And>u s1. keepsHandler s1 (snd (if \<not> ready s1 then (Blocks, s1) else Run_serve mux s1))"
    using sv by (simp add: keepsHandler_refl)
  then have "keepsHandler s (snd (Run_body mux s))"
    unfolding Run_body_def by (rule andThen_keepsHandler [OF Run_prepare_keepsHandler])
  then show ?thesis by (simp add: Run_snd)
qed

lemma operation_keepsHandler: "keepsHandler s (operation mux x s)"
  by (cases x)
     (simp_all add: WriteHeader_keepsHandler Write_keepsHandler ReceiveFrame_keepsHandler
        Run_keepsHandler)

lemma operations_keepsHandler: "keepsHandler s (operations mux xs s)"
proof (induction xs arbitrary: s)
  case Nil
  then show ?case by (simp add: keepsHandler_refl)
next
  case (Cons x xs)
  show ?case
    using operation_keepsHandler [of s mux x] Cons.IH [of "operation mux x s"] keepsHandler_trans
    by auto
qed

text \<open>
  C10 (as amended). For every \<^verbatim>\<open>SYN_STREAM\<close> frame (and a connection and a request
  that are not nil), \<^verbatim>\<open>NewResponseStream\<close> with a nil handler returns a stream whose
  handler is \<^verbatim>\<open>http.DefaultServeMux\<close>. \<^verbatim>\<open>WriteHeader\<close>, \<^verbatim>\<open>Write\<close>,
  \<^verbatim>\<open>ReceiveFrame\<close> and \<^verbatim>\<open>Run\<close> leave the handler as it is: after any sequence of
  these operations the handler is still the mux, and a \<^verbatim>\<open>Run\<close> during which no
  \<^verbatim>\<open>Close\<close> runs finds the request prepared and makes its handler invocation on
  the mux. With any handler argument the handler of the new stream is not nil, and
  the stream starts with an empty request-body buffer, an empty header map,
  \<^verbatim>\<open>wroteHeader\<close> false and \<^verbatim>\<open>responseCode\<close> 0. On a stream that was shut down
  before \<^verbatim>\<open>Run\<close> starts, \<^verbatim>\<open>Run\<close> panics on the nil request before it comes to
  the handler.
\<close>

theorem NewResponseStream_defaults:
  "(\<exists>s. NewResponseStream (Some c) (Some f) out None (Some r) = Returns s \<and>
        handler s = Some DefaultServeMux \<and>
        Run_prepare s = (Returns (), s) \<and>
        ServeHTTP mux s = calls mux s \<and>
        handler (operations mux ops s) = Some DefaultServeMux \<and>
        fst (Run_prepare (operations mux ops s)) = Returns () \<and>
        handler (snd (Run_prepare (operations mux ops s))) = Some DefaultServeMux \<and>
        ServeHTTP mux (snd (Run_prepare (operations mux ops s))) =
          calls mux (snd (Run_prepare (operations mux ops s)))) \<and>
   (\<exists>s. NewResponseStream (Some c) (Some f) out hdl (Some r) = Returns s \<and>
        handler s \<noteq> None \<and>
        requestBody s = Some [] \<and> header s = Some Map.empty \<and>
        \<not> wroteHeader s \<and> responseCode s = 0) \<and>
   (fst (shutdown s0) = Returns () \<longrightarrow> fst (Run_prepare (snd (shutdown s0))) = Panics)"
proof -
  have a: "fst (shutdown s0) = Returns () \<longrightarrow> fst (Run_prepare (snd (shutdown s0))) = Panics"
    using shutdown_drops [of s0] by (auto simp: Run_prepare_def)
  obtain s where s: "NewResponseStream (Some c) (Some f) out None (Some r) = Returns s"
      and hs: "handler s = Some DefaultServeMux" and rs: "request s \<noteq> None"
      and ps: "Run_prepare s = (Returns (), s)"
    unfolding NewResponseStream_returns by (simp add: Run_prepare_def)
  let ?s0 = "operations mux ops s"
  let ?s1 = "snd (Run_prepare ?s0)"
  have k0: "keepsHandler s ?s0" by (rule operations_keepsHandler)
  have k1: "keepsHandler ?s0 ?s1" by (rule Run_prepare_keepsHandler)
  have h0: "handler ?s0 = Some DefaultServeMux" "request ?s0 \<noteq> None"
    using k0 hs rs by (simp_all add: keepsHandler_def)
  have h1: "handler ?s1 = Some DefaultServeMux"
    using k1 h0 by (simp add: keepsHandler_def)
  have r1: "fst (Run_prepare ?s0) = Returns ()"
    by (rule Run_prepare_returns [OF h0(2)])
  have b: "\<exists>s. NewResponseStream (Some c) (Some f) out None (Some r) = Returns s \<and>
        handler s = Some DefaultServeMux \<and>
        Run_prepare s = (Returns (), s) \<and>
        ServeHTTP mux s = calls mux s \<and>
        handler (operations mux ops s) = Some DefaultServeMux \<and>
        fst (Run_prepare (operations mux ops s)) = Returns () \<and>
        handler (snd (Run_prepare (operations mux ops s))) = Some DefaultServeMux \<and>
        ServeHTTP mux (snd (Run_prepare (operations mux ops s))) =
          calls mux (snd (Run_prepare (operations mux ops s)))"
    using s hs ps h0(1) h1 r1 by (intro exI [of _ s]) (simp add: ServeHTTP_def)
  have c: "\<exists>s. NewResponseStream (Some c) (Some f) out hdl (Some r) = Returns s \<and>
        handler s \<noteq> None \<and>
        requestBody s = Some [] \<and> header s = Some Map.empty \<and>
        \<not> wroteHeader s \<and> responseCode s = 0"
    unfolding NewResponseStream_returns by simp
  show ?thesis using a b c by blast
qed

theorem NewResponseStream_defaults_witness:
  "NewResponseStream (Some exampleConn) (Some exampleFrame) (Some ()) None (Some exampleRequest) =
     Returns (liveStream\<lparr>flow := None\<rparr>) \<and>
   AddFlowControl (newFlowControl 65536) (liveStream\<lparr>flow := None\<rparr>) = liveStream \<and>
   handler liveStream = Some DefaultServeMux \<and>
   handler (snd (Run_prepare
      (operations [] [OpReceiveFrame (Some (HEADERS 0 5 Map.empty)), OpWriteHeader 200]
         (liveStream\<lparr>flow := None\<rparr>)))) = Some DefaultServeMux \<and>
   fst (shutdown liveStream) = Returns () \<and>
   fst (Run_prepare (snd (shutdown liveStream))) = Panics"
proof -
  have sd: "fst (shutdown liveStream) = Returns ()"
    by (simp add: shutdown_def writeHeader_def andThen_def liveStream_def)
  have n: "NewResponseStream (Some exampleConn) (Some exampleFrame) (Some ()) None
             (Some exampleRequest) = Returns (liveStream\<lparr>flow := None\<rparr>)"
      "AddFlowControl (newFlowControl 65536) (liveStream\<lparr>flow := None\<rparr>) = liveStream"
      "handler liveStream = Some DefaultServeMux"
    by (simp_all add: NewResponseStream_returns liveStream_def exampleConn_def exampleFrame_def
        exampleRequest_def AddFlowControl_def FIN_def FLAG_FIN_def UNIDIRECTIONAL_def
        FLAG_UNIDIRECTIONAL_def)
  note t = NewResponseStream_defaults
            [where c = exampleConn and f = exampleFrame and out = "Some ()"
               and r = exampleRequest and mux = "[]" and hdl = None and ?s0.0 = liveStream
               and ops = "[OpReceiveFrame (Some (HEADERS 0 5 Map.empty)), OpWriteHeader 200]"]
  have k: "handler (snd (Run_prepare
      (operations [] [OpReceiveFrame (Some (HEADERS 0 5 Map.empty)), OpWriteHeader 200]
         (liveStream\<lparr>flow := None\<rparr>)))) = Some DefaultServeMux"
    using t unfolding n(1) by blast
  show ?thesis
    using t sd n k by blast
qed

text \<open>
  The claim as it was stated says that \<^verbatim>\<open>Run\<close> never invokes a nil handler.
  \<^verbatim>\<open>shutdown\<close> sets the handler nil, and \<^verbatim>\<open>Run\<close> reads it without the mutex. On
  the stream built for a \<^verbatim>\<open>SYN_STREAM\<close> without \<^verbatim>\<open>FIN\<close> and a nil handler
  argument, \<^verbatim>\<open>Run\<close> prepares the request and waits; \<^verbatim>\<open>Close\<close> returns; a
  \<^verbatim>\<open>SYN_REPLY\<close> with \<^verbatim>\<open>FIN\<close> closes \<^verbatim>\<open>s.ready\<close>; and the handler call of
  \<^verbatim>\<open>Run\<close> is then made on a nil handler and panics. The same happens when
  \<^verbatim>\<open>Close\<close> runs between the receive from \<^verbatim>\<open>s.ready\<close> and the handler call.
\<close>

theorem nil_handler_counterexample:
  "NewResponseStream (Some exampleConn) (Some (exampleFrame\<lparr>Flags := 0\<rparr>)) (Some ()) None
       (Some exampleRequest) = Returns (openStream\<lparr>flow := None\<rparr>) \<and>
   AddFlowControl (newFlowControl 65536) (openStream\<lparr>flow := None\<rparr>) = openStream \<and>
   Run_prepare openStream = (Returns (), openStream) \<and> \<not> ready openStream \<and>
   fst (Close openStream) = Returns None \<and>
   fst (ReceiveFrame (Some (SYN_REPLY FLAG_FIN 5 Map.empty)) (snd (Close openStream))) =
     Returns None \<and>
   ready closedWhileWaiting \<and> handler closedWhileWaiting = None \<and>
   Run_serve [] closedWhileWaiting = (Panics, closedWhileWaiting) \<and>
   Run_prepare liveStream = (Returns (), liveStream) \<and> ready liveStream \<and>
   fst (Close liveStream) = Returns None \<and>
   handler closedBeforeServing = None \<and>
   Run_serve [] closedBeforeServing = (Panics, closedBeforeServing)"
  by (simp add: closedWhileWaiting_def closedBeforeServing_def openStream_def liveStream_def
      NewResponseStream_def exampleConn_def exampleFrame_def exampleRequest_def
      AddFlowControl_def FIN_def FLAG_FIN_def UNIDIRECTIONAL_def FLAG_UNIDIRECTIONAL_def
      Run_prepare_def Close_def shutdown_def writeHeader_def andThen_def updateHeader_def
      finishRequest_def Run_serve_def ServeHTTP_def State_Close_def)


lemma grows_refl: "grows s s"
  by (simp add: grows_def)

lemma grows_trans: "grows s s1 \<Longrightarrow> grows s1 s2 \<Longrightarrow> grows s s2"
  by (auto simp: grows_def)

lemma replied_grows: "replied s \<Longrightarrow> grows s s' \<Longrightarrow> replied s'"
  by (auto simp: replied_def grows_def split: list.splits)

lemma headerFirst_synReplyFirst: "headerFirst s \<Longrightarrow> synReplyFirst (sent s)"
  by (auto simp: headerFirst_def split: list.splits)

lemma replied_headerFirst: "replied s \<Longrightarrow> headerFirst s"
  by (auto simp: replied_def headerFirst_def split: list.splits)

lemma headerFirst_wrote: "headerFirst s \<Longrightarrow> wroteHeader s \<Longrightarrow> replied s"
  by (auto simp: replied_def headerFirst_def split: list.splits)

lemma grows_send: "grows s (snd (send frame s))"
  by (auto simp: grows_def send_def split: option.splits)

lemma grows_writeHeader: "grows s (snd (writeHeader s))"
  by (auto simp: grows_def writeHeader_def send_def split: option.splits)

lemma grows_flowWrite: "grows s (snd (flowWrite data s))"
  by (auto simp: grows_def flowWrite_def split: option.splits prod.splits)

lemma grows_writeChunks: "grows s (snd (writeChunks data n s))"
proof (induction data n s rule: writeChunks.induct)
  case (1 data n_written s)
  show ?case
  proof (cases "flowWrite (take MAX_DATA_SIZE data) s")
    case (Pair r s1)
    have g1: "grows s s1" using grows_flowWrite [of s "take MAX_DATA_SIZE data"] Pair by simp
    have g2: "grows s (snd (flowWrite data s))" by (rule grows_flowWrite)
    show ?thesis
    proof (cases "length data > MAX_DATA_SIZE")
      case True
      show ?thesis
      proof (cases r)
        case (Returns p)
        obtain n err where p: "p = (n, err)" by (cases p)
        show ?thesis
        proof (cases err)
          case None
          have "grows s1 (snd (writeChunks (drop MAX_DATA_SIZE data) (n_written + n) s1))"
            using "1.IH" [OF True] Pair Returns p None by simp
          then show ?thesis
            using True Pair Returns p None g1
            by (subst writeChunks.simps) (auto intro: grows_trans)
        next
          case (Some e)
          then show ?thesis using True Pair Returns p g1
            by (subst writeChunks.simps) simp
        qed
      next
        case Panics
        then show ?thesis using True Pair g1 by (subst writeChunks.simps) simp
      next
        case Blocks
        then show ?thesis using True Pair g1 by (subst writeChunks.simps) simp
      qed
    next
      case False
      then show ?thesis using g2
        by (subst writeChunks.simps) (auto split: prod.splits outcome.splits)
    qed
  qed
qed


lemma WriteHeader_headerFirst:
  assumes "headerFirst s"
  shows "(fst (WriteHeader code s) = Returns () \<longrightarrow> headerFirst (snd (WriteHeader code s))) \<and>
         synReplyFirst (sent (snd (WriteHeader code s)))"
  using assms
  by (auto simp: WriteHeader_def Let_def send_def headerFirst_def
      split: option.splits list.splits)

lemma WriteHeader_replied:
  assumes "headerFirst s" "\<not> unidirectional s" "\<not> wroteHeader s"
    "fst (WriteHeader code s) = Returns ()"
  shows "replied (snd (WriteHeader code s))"
  using assms
  by (auto simp: WriteHeader_def Let_def send_def headerFirst_def replied_def
      split: option.splits list.splits if_splits)

lemma replied_Write_tail:
  assumes "replied s1"
  shows "replied (snd (andThen (writeHeader s1) (\<lambda>u s2. writeChunks inputData 0 s2)))"
proof -
  have g: "grows s1 (snd (writeHeader s1))" by (rule grows_writeHeader)
  have r: "replied (snd (writeHeader s1))" by (rule replied_grows [OF assms g])
  show ?thesis
  proof (cases "fst (writeHeader s1)")
    case (Returns u)
    have "replied (snd (writeChunks inputData 0 (snd (writeHeader s1))))"
      by (rule replied_grows [OF r grows_writeChunks])
    then show ?thesis using Returns by (simp add: andThen_cases)
  next
    case Panics
    then show ?thesis using r by (simp add: andThen_cases)
  next
    case Blocks
    then show ?thesis using r by (simp add: andThen_cases)
  qed
qed

lemma Write_headerFirst:
  assumes "headerFirst s"
  shows "((\<exists>r. fst (Write bs s) = Returns r) \<longrightarrow> headerFirst (snd (Write bs s))) \<and>
         synReplyFirst (sent (snd (Write bs s)))"
proof -
  consider (rej) "unidirectional s \<or> closed s \<or>
        (case state s of None \<Rightarrow> True | Some st \<Rightarrow> State_ClosedHere st)"
    | (wrote) "\<not> unidirectional s" "\<not> (closed s \<or>
        (case state s of None \<Rightarrow> True | Some st \<Rightarrow> State_ClosedHere st))" "wroteHeader s"
    | (fresh) "\<not> unidirectional s" "\<not> (closed s \<or>
        (case state s of None \<Rightarrow> True | Some st \<Rightarrow> State_ClosedHere st))" "\<not> wroteHeader s"
    by blast
  then show ?thesis
  proof cases
    case rej
    then have "snd (Write bs s) = s" by (auto simp: Write_def)
    then show ?thesis using assms headerFirst_synReplyFirst by simp
  next
    case wrote
    have w: "Write bs s = andThen (writeHeader s) (\<lambda>u s2. writeChunks bs 0 s2)"
      using wrote by (simp add: Write_def andThen_def)
    have "replied (snd (Write bs s))"
      unfolding w by (rule replied_Write_tail [OF headerFirst_wrote [OF assms wrote(3)]])
    then show ?thesis
      using replied_headerFirst headerFirst_synReplyFirst by blast
  next
    case fresh
    have w: "Write bs s = andThen (WriteHeader 200 s)
        (\<lambda>u s1. andThen (writeHeader s1) (\<lambda>u s2. writeChunks bs 0 s2))"
      using fresh by (simp add: Write_def)
    show ?thesis
    proof (cases "fst (WriteHeader 200 s)")
      case (Returns u)
      have r: "replied (snd (WriteHeader 200 s))"
        using WriteHeader_replied [OF assms fresh(1) fresh(3)] Returns by simp
      have "replied (snd (Write bs s))"
        unfolding w using Returns replied_Write_tail [OF r, of bs]
        by (simp add: andThen_cases [of "WriteHeader 200 s"])
      then show ?thesis
        using replied_headerFirst headerFirst_synReplyFirst by blast
    next
      case Panics
      then show ?thesis
        unfolding w using WriteHeader_headerFirst [OF assms, of 200]
        by (simp add: andThen_cases [of "WriteHeader 200 s"])
    next
      case Blocks
      then show ?thesis
        unfolding w using WriteHeader_headerFirst [OF assms, of 200]
        by (simp add: andThen_cases [of "WriteHeader 200 s"])
    qed
  qed
qed

lemma call_headerFirst:
  assumes "headerFirst s"
  shows "(fst (call c s) = Returns () \<longrightarrow> headerFirst (snd (call c s))) \<and>
         synReplyFirst (sent (snd (call c s)))"
proof (cases c)
  case (CallWrite bs)
  have a: "fst (call c s) = Returns () \<Longrightarrow> \<exists>r. fst (Write bs s) = Returns r"
    unfolding CallWrite by (auto simp: andThen_cases split: outcome.splits)
  have b: "snd (call c s) = snd (Write bs s)"
    unfolding CallWrite by (auto simp: andThen_cases split: outcome.splits)
  show ?thesis using Write_headerFirst [OF assms, of bs] a b by auto
next
  case (CallWriteHeader code)
  then show ?thesis using WriteHeader_headerFirst [OF assms, of code] by simp
next
  case (CallHeaderSet name v)
  then show ?thesis using assms headerFirst_synReplyFirst [OF assms]
    by (auto simp: headerFirst_def split: option.splits list.splits)
next
  case (CallHeaderAdd name v)
  then show ?thesis using assms headerFirst_synReplyFirst [OF assms]
    by (auto simp: headerFirst_def split: option.splits list.splits)
next
  case (CallHeaderDel name)
  then show ?thesis using assms headerFirst_synReplyFirst [OF assms]
    by (auto simp: headerFirst_def split: option.splits list.splits)
next
  case CallPanic
  then show ?thesis using headerFirst_synReplyFirst [OF assms] by simp
qed

lemma calls_synReplyFirst:
  "headerFirst s \<Longrightarrow> synReplyFirst (sent (snd (calls cs s)))"
proof (induction cs arbitrary: s)
  case Nil
  then show ?case by (simp add: headerFirst_synReplyFirst)
next
  case (Cons c cs)
  show ?case
  proof (cases "fst (call c s)")
    case (Returns u)
    then have "headerFirst (snd (call c s))" using call_headerFirst [OF Cons.prems] by simp
    then show ?thesis using Cons.IH Returns by (simp add: andThen_cases)
  next
    case Panics
    then show ?thesis using call_headerFirst [OF Cons.prems, of c] by (simp add: andThen_cases)
  next
    case Blocks
    then show ?thesis using call_headerFirst [OF Cons.prems, of c] by (simp add: andThen_cases)
  qed
qed

lemma synReplyFirst_data:
  "synReplyFirst fs \<Longrightarrow> i < length fs \<Longrightarrow> isData (fs ! i) \<Longrightarrow> 0 < i \<and> isSynReply (fs ! 0)"
  by (cases fs; cases i; cases "fs ! 0") auto


lemma not_noBody_200: "\<not> noBody 200"
  by (simp add: noBody_def signed_divide_int_def)

lemma Itoa_200: "Itoa 200 = ''200''"
  by (simp add: Itoa_def digitsOf.simps)

lemma Write_sends_reply_first:
  assumes "\<not> unidirectional s" "\<not> closed s" "state s = Some st" "State_OpenHere st"
    "header s = Some h" "output s = Some ch" "sent s = []" "\<not> wroteHeader s"
  shows "\<exists>rest. sent (snd (Write bs s)) =
     SYN_REPLY 0 (streamID s)
       (sentHeader (h('':status'' \<mapsto> [''200''], '':version'' \<mapsto> [''HTTP/1.1'']))) # rest"
proof -
  define s1 where "s1 =
      s\<lparr>wroteHeader := True, responseCode := 200, header := Some Map.empty,
        state := Some st,
        sent := [SYN_REPLY 0 (streamID s)
           (sentHeader (h('':status'' \<mapsto> [''200''], '':version'' \<mapsto> [''HTTP/1.1''])))]\<rparr>"
  have wh: "WriteHeader 200 s = (Returns (), s1)"
    using WriteHeader_sends [OF assms(1) assms(8) assms(5) assms(3) assms(6), of 200] assms(7)
    by (simp add: not_noBody_200 Itoa_200 s1_def)
  have w: "Write bs s = andThen (writeHeader s1) (\<lambda>u s2. writeChunks bs 0 s2)"
    using assms(1-4,8) by (simp add: Write_def wh andThen_def State_ClosedHere_def)
  have g: "grows s1 (snd (Write bs s))"
  proof (cases "fst (writeHeader s1)")
    case (Returns u)
    then show ?thesis
      unfolding w using grows_trans [OF grows_writeHeader grows_writeChunks]
      by (simp add: andThen_cases)
  next
    case Panics
    then show ?thesis unfolding w using grows_writeHeader [of s1] by (simp add: andThen_cases)
  next
    case Blocks
    then show ?thesis unfolding w using grows_writeHeader [of s1] by (simp add: andThen_cases)
  qed
  then show ?thesis by (auto simp: grows_def s1_def)
qed

text \<open>
  C3. For every sequence of calls a handler makes on a response stream that has sent
  nothing and has not written its header (\<^verbatim>\<open>Write\<close>, \<^verbatim>\<open>WriteHeader\<close>, changes
  of the header map), the frames sent are none or begin with a \<^verbatim>\<open>SYN_REPLY\<close>, so
  that every \<^verbatim>\<open>DATA\<close> frame comes after it; and a \<^verbatim>\<open>Write\<close> that is accepted
  while \<^verbatim>\<open>wroteHeader\<close> is false sends the \<^verbatim>\<open>SYN_REPLY\<close> of \<^verbatim>\<open>WriteHeader(200)\<close>
  before anything else.
\<close>

theorem SYN_REPLY_first:
  assumes "sent s = []" and "\<not> wroteHeader s"
  shows "synReplyFirst (sent (snd (calls cs s))) \<and>
         (\<forall>i < length (sent (snd (calls cs s))).
            isData (sent (snd (calls cs s)) ! i) \<longrightarrow>
              0 < i \<and> isSynReply (sent (snd (calls cs s)) ! 0)) \<and>
         (\<not> unidirectional s \<and> \<not> closed s \<and> state s = Some st \<and> State_OpenHere st \<and>
          header s = Some h \<and> output s = Some ch \<longrightarrow>
            (\<exists>rest. sent (snd (Write bs s)) =
               SYN_REPLY 0 (streamID s)
                 (sentHeader (h('':status'' \<mapsto> [''200''], '':version'' \<mapsto> [''HTTP/1.1''])))
               # rest))"
proof -
  have hf: "headerFirst s" using assms by (simp add: headerFirst_def)
  have f: "synReplyFirst (sent (snd (calls cs s)))" by (rule calls_synReplyFirst [OF hf])
  show ?thesis
    using f synReplyFirst_data [OF f] Write_sends_reply_first [of s st h ch bs] assms
    by blast
qed

theorem SYN_REPLY_first_witness:
  "sent liveStream = [] \<and> \<not> wroteHeader liveStream \<and>
   sent (snd (calls [CallWrite [104, 105]] liveStream)) =
     [SYN_REPLY 0 5
        (sentHeader (Map.empty('':status'' \<mapsto> [''200''], '':version'' \<mapsto> [''HTTP/1.1'']))),
      DATA 0 5 [104, 105]] \<and>
   synReplyFirst (sent (snd (calls [CallWrite [104, 105]] liveStream))) \<and>
   isData (sent (snd (calls [CallWrite [104, 105]] liveStream)) ! 1)"
proof -
  have h: "sent liveStream = []" "\<not> wroteHeader liveStream"
    by (simp_all add: liveStream_def)
  have e: "sent (snd (calls [CallWrite [104, 105]] liveStream)) =
     [SYN_REPLY 0 5
        (sentHeader (Map.empty('':status'' \<mapsto> [''200''], '':version'' \<mapsto> [''HTTP/1.1'']))),
      DATA 0 5 [104, 105]]"
    by (simp add: liveStream_def andThen_def Write_def closed_def exampleConn_def
        State_ClosedHere_def WriteHeader_def Let_def send_def Itoa_200 writeHeader_def
        writeChunks.simps MAX_DATA_SIZE_def flowWrite_def flow_Write_def newFlowControl_def
        dataFrames.simps signed_divide_int_def)
  have t: "synReplyFirst (sent (snd (calls [CallWrite [104, 105]] liveStream)))"
    by (rule SYN_REPLY_first [OF h, of "[CallWrite [104, 105]]", THEN conjunct1])
  have d: "isData (sent (snd (calls [CallWrite [104, 105]] liveStream)) ! 1)"
    unfolding e by simp
  show ?thesis
    using h e t d by blast
qed

lemma noFIN_append: "noFIN (xs @ ys) = (noFIN xs \<and> noFIN ys)"
  by (simp add: noFIN_def)

lemma oneFINLast_snoc: "oneFINLast (xs @ [f]) = (carriesFIN f \<and> noFIN xs)"
  by (simp add: oneFINLast_def noFIN_def filter_empty_conv)

lemma noFIN_nil: "noFIN []"
  by (simp add: noFIN_def)

lemma carriesFIN_simps:
  "carriesFIN (SYN_REPLY FLAG_FIN sid hdr)" "\<not> carriesFIN (SYN_REPLY 0 sid hdr)"
  "\<not> carriesFIN (HEADERS 0 sid hdr)" "\<not> carriesFIN (DATA 0 sid bs)"
  "carriesFIN (DATA FLAG_FIN sid bs)"
  "\<not> carriesFIN (WINDOW_UPDATE sid delta)" "\<not> carriesFIN (RST_STREAM sid status)"
  by (simp_all add: carriesFIN_def FIN_def FLAG_FIN_def)

lemma noFIN_dataFrames: "noFIN (dataFrames sid bs)"
proof (induction sid bs rule: dataFrames.induct)
  case (1 sid bs)
  show ?case
  proof (cases "bs = []")
    case True
    then show ?thesis by (subst dataFrames.simps) (simp add: noFIN_def)
  next
    case False
    then have "noFIN (dataFrames sid (drop MAX_DATA_SIZE bs))" using "1.IH" by simp
    then show ?thesis using False
      by (subst dataFrames.simps) (simp add: noFIN_def carriesFIN_simps)
  qed
qed

lemma filter_noFIN: "noFIN ys \<Longrightarrow> filter carriesFIN (xs @ ys) = filter carriesFIN xs"
  by (simp add: noFIN_def)

lemma OpenThere_CloseHere: "State_OpenThere (State_CloseHere st) = State_OpenThere st"
  by (cases st) simp_all

lemma OpenHere_CloseThere: "State_OpenHere (State_CloseThere st) = State_OpenHere st"
  by (cases st) simp_all

lemma CloseThere_closed: "\<not> State_OpenThere (State_CloseThere st)"
  by (cases st) simp_all

lemma later_refl: "later s s"
  by (simp add: later_def)

lemma later_trans: "later s s1 \<Longrightarrow> later s1 s2 \<Longrightarrow> later s s2"
  by (auto simp: later_def)

lemma keepsFinLast_refl: "keepsFinLast s s"
  by (simp add: keepsFinLast_def)

lemma keepsFinLast_same: "sent s' = sent s \<Longrightarrow> keepsFinLast s s'"
  by (simp add: keepsFinLast_def)

lemma oneFINLast_not_noFIN: "oneFINLast xs \<Longrightarrow> \<not> noFIN xs"
  by (cases xs rule: rev_cases) (auto simp: oneFINLast_def noFIN_def)

lemma keepsFinLast_trans:
  "keepsFinLast s s1 \<Longrightarrow> keepsFinLast s1 s2 \<Longrightarrow> keepsFinLast s s2"
  using oneFINLast_not_noFIN
  by (auto simp: keepsFinLast_def split: if_splits)

lemma writing_finBalanced: "writing s \<Longrightarrow> finBalanced s"
  by (simp add: writing_def finBalanced_def)

lemma flowWrite_writing:
  assumes "writing s"
  shows "(\<exists>r. fst (flowWrite bs s) = Returns r \<and> snd r = None) \<and>
         writing (snd (flowWrite bs s)) \<and> ready (snd (flowWrite bs s)) = ready s"
proof -
  obtain fl st where fl: "flow s = Some fl" and st: "state s = Some st"
    using assms by (auto simp: writing_def attached_def split: option.splits)
  obtain fl' frames n err where w: "flow_Write (streamID s) bs fl = (fl', frames, n, err)"
    by (cases "flow_Write (streamID s) bs fl") auto
  have nf: "noFIN frames" "err = None"
    using w by (auto simp: flow_Write_def noFIN_dataFrames noFIN_nil split: if_splits)
  have r: "flowWrite bs s = (Returns (n, err), s\<lparr>flow := Some fl', sent := sent s @ frames\<rparr>)"
    by (simp add: flowWrite_def fl w)
  show ?thesis
    unfolding r using assms fl st nf
    by (auto simp: writing_def attached_def localOpen_def noFIN_append)
qed

lemma writeChunks_writing:
  "writing s \<Longrightarrow>
   (\<exists>r. fst (writeChunks data n s) = Returns r) \<and> writing (snd (writeChunks data n s)) \<and>
   ready (snd (writeChunks data n s)) = ready s"
proof (induction data n s rule: writeChunks.induct)
  case (1 data n_written s)
  show ?case
  proof (cases "length data > MAX_DATA_SIZE")
    case True
    obtain m s1 where f: "flowWrite (take MAX_DATA_SIZE data) s = (Returns (m, None), s1)"
      using flowWrite_writing [OF "1.prems", of "take MAX_DATA_SIZE data"]
      by (cases "flowWrite (take MAX_DATA_SIZE data) s") auto
    have w1: "writing s1" "ready s1 = ready s"
      using flowWrite_writing [OF "1.prems", of "take MAX_DATA_SIZE data"] f by simp_all
    have ih: "(\<exists>r. fst (writeChunks (drop MAX_DATA_SIZE data) (n_written + m) s1) = Returns r) \<and>
        writing (snd (writeChunks (drop MAX_DATA_SIZE data) (n_written + m) s1)) \<and>
        ready (snd (writeChunks (drop MAX_DATA_SIZE data) (n_written + m) s1)) = ready s1"
      using "1.IH" [OF True f [symmetric] refl refl refl w1(1)] by simp
    show ?thesis
      using True f ih w1(2) by (subst (1 2 3) writeChunks.simps) simp
  next
    case False
    obtain r s1 where f: "flowWrite data s = (Returns r, s1)"
      using flowWrite_writing [OF "1.prems", of data] by (cases "flowWrite data s") auto
    have w1: "writing s1" "ready s1 = ready s"
      using flowWrite_writing [OF "1.prems", of data] f by simp_all
    show ?thesis
      using False f w1 by (subst (1 2 3) writeChunks.simps) (simp split: prod.splits)
  qed
qed

lemma writeHeader_writing:
  assumes "writing s"
  shows "fst (writeHeader s) = Returns () \<and> writing (snd (writeHeader s)) \<and>
         ready (snd (writeHeader s)) = ready s"
  using assms
  by (auto simp: writeHeader_def send_def writing_def attached_def localOpen_def noFIN_append
      noFIN_def carriesFIN_simps split: option.splits)


lemma WriteHeader_finBalanced:
  assumes "finBalanced s" and "\<not> closedWithoutHeader s"
  shows "fst (WriteHeader code s) = Returns () \<and> finBalanced (snd (WriteHeader code s)) \<and>
         later s (snd (WriteHeader code s)) \<and> keepsFinLast s (snd (WriteHeader code s)) \<and>
         \<not> closedWithoutHeader (snd (WriteHeader code s))"
proof (cases "unidirectional s \<or> wroteHeader s")
  case True
  then have "WriteHeader code s = (Returns (), s)" by (auto simp: WriteHeader_def)
  then show ?thesis using assms by (simp add: later_refl keepsFinLast_refl)
next
  case False
  obtain fl st h ch where a: "flow s = Some fl" "state s = Some st" "header s = Some h"
      "output s = Some ch"
    using assms(1) by (auto simp: finBalanced_def attached_def split: option.splits)
  have u: "\<not> unidirectional s" "\<not> wroteHeader s" using False by simp_all
  have o: "State_OpenHere st" "noFIN (sent s)"
    using assms u a by (auto simp: finBalanced_def closedWithoutHeader_def localOpen_def
        split: if_splits)
  have r: "ready s \<longrightarrow> \<not> State_OpenThere st"
    using assms(1) a by (simp add: finBalanced_def attached_def)
  show ?thesis
    unfolding WriteHeader_sends [OF u a(3) a(2) a(4)]
    using a u o r
    by (simp add: finBalanced_def attached_def localOpen_def later_def keepsFinLast_def
        closedWithoutHeader_def finCount_def noFIN_append oneFINLast_snoc carriesFIN_simps
        noFIN_def CloseHere_closed OpenThere_CloseHere)
qed

lemma WriteHeader_200_writing:
  assumes "finBalanced s" "\<not> unidirectional s" "localOpen s" "\<not> wroteHeader s"
  shows "fst (WriteHeader 200 s) = Returns () \<and> writing (snd (WriteHeader 200 s)) \<and>
         ready (snd (WriteHeader 200 s)) = ready s"
proof -
  obtain fl st h ch where a: "flow s = Some fl" "state s = Some st" "header s = Some h"
      "output s = Some ch"
    using assms(1) by (auto simp: finBalanced_def attached_def split: option.splits)
  have o: "State_OpenHere st" "noFIN (sent s)"
    using assms a by (auto simp: finBalanced_def localOpen_def split: if_splits)
  have r: "ready s \<longrightarrow> \<not> State_OpenThere st"
    using assms(1) a by (simp add: finBalanced_def attached_def)
  show ?thesis
    unfolding WriteHeader_sends [OF assms(2) assms(4) a(3) a(2) a(4)]
    using a assms(2) o r
    by (simp add: writing_def attached_def localOpen_def noFIN_append carriesFIN_simps noFIN_def
        not_noBody_200)
qed

lemma Write_finBalanced:
  assumes "finBalanced s"
  shows "(\<exists>r. fst (Write bs s) = Returns r) \<and> finBalanced (snd (Write bs s)) \<and>
         later s (snd (Write bs s)) \<and> keepsFinLast s (snd (Write bs s)) \<and>
         (\<not> closedWithoutHeader s \<longrightarrow> \<not> closedWithoutHeader (snd (Write bs s)))"
proof -
  obtain st where st: "state s = Some st"
    using assms by (auto simp: finBalanced_def attached_def split: option.splits)
  consider (uni) "unidirectional s"
    | (rej) "\<not> unidirectional s" "closed s \<or> State_ClosedHere st"
    | (acc) "\<not> unidirectional s" "\<not> closed s" "State_OpenHere st"
    by (auto simp: State_ClosedHere_def)
  then show ?thesis
  proof cases
    case uni
    then have "Write bs s = (Returns (0, Some (ErrorString ''Error: Stream is unidirectional.'')), s)"
      by (simp add: Write_def)
    then show ?thesis using assms by (simp add: later_refl keepsFinLast_refl)
  next
    case rej
    then have "Write bs s = (Returns (0, Some (ErrorString ''Error: Stream already closed.'')), s)"
      using st by (auto simp: Write_def)
    then show ?thesis using assms by (simp add: later_refl keepsFinLast_refl)
  next
    case acc
    have lo: "localOpen s" using st acc(3) by (simp add: localOpen_def)
    have nf: "noFIN (sent s)" using assms lo by (simp add: finBalanced_def)
    define s1 where "s1 = (if \<not> wroteHeader s then snd (WriteHeader 200 s) else s)"
    have h1: "(if \<not> wroteHeader s then WriteHeader 200 s else (Returns (), s)) = (Returns (), s1)"
      using WriteHeader_200_writing [OF assms acc(1) lo] by (auto simp: s1_def prod_eq_iff)
    have w1: "writing s1" "ready s1 = ready s"
      using WriteHeader_200_writing [OF assms acc(1) lo] assms acc(1) lo nf
      by (auto simp: s1_def writing_def finBalanced_def)
    define s2 where "s2 = snd (writeHeader s1)"
    have h2: "writeHeader s1 = (Returns (), s2)"
      using writeHeader_writing [OF w1(1)] by (simp add: s2_def prod_eq_iff)
    have w2: "writing s2" "ready s2 = ready s1"
      using writeHeader_writing [OF w1(1)] by (simp_all add: s2_def)
    have w: "Write bs s = writeChunks bs 0 s2"
      using acc st by (simp add: Write_def h1 h2 andThen_def State_ClosedHere_def)
    note c = writeChunks_writing [OF w2(1), of bs 0]
    have w3: "writing (snd (Write bs s))" "ready (snd (Write bs s)) = ready s"
      unfolding w using c w1(2) w2(2) by simp_all
    have "later s (snd (Write bs s))"
      using w3 acc(1) lo by (simp add: later_def writing_def)
    moreover have "keepsFinLast s (snd (Write bs s))"
      using w3(1) nf by (simp add: keepsFinLast_def writing_def)
    moreover have "\<not> closedWithoutHeader (snd (Write bs s))"
      using w3(1) by (simp add: closedWithoutHeader_def writing_def)
    moreover have "\<exists>r. fst (Write bs s) = Returns r" unfolding w using c by simp
    ultimately show ?thesis using writing_finBalanced [OF w3(1)] by simp
  qed
qed

lemma call_finBalanced:
  assumes "finBalanced s" and "isWriteHeader c \<longrightarrow> \<not> closedWithoutHeader s"
  shows "(c \<noteq> CallPanic \<longrightarrow> fst (call c s) = Returns ()) \<and> finBalanced (snd (call c s)) \<and>
         later s (snd (call c s)) \<and> keepsFinLast s (snd (call c s)) \<and>
         (\<not> closedWithoutHeader s \<longrightarrow> \<not> closedWithoutHeader (snd (call c s)))"
proof (cases c)
  case (CallWrite bs)
  then show ?thesis using Write_finBalanced [OF assms(1), of bs]
    by (auto simp: andThen_cases)
next
  case (CallWriteHeader code)
  then show ?thesis using WriteHeader_finBalanced [OF assms(1), of code] assms(2) by simp
next
  case (CallHeaderSet name v)
  then show ?thesis using assms(1)
    by (auto simp: finBalanced_def attached_def localOpen_def later_def keepsFinLast_def
        closedWithoutHeader_def finCount_def split: option.splits)
next
  case (CallHeaderAdd name v)
  then show ?thesis using assms(1)
    by (auto simp: finBalanced_def attached_def localOpen_def later_def keepsFinLast_def
        closedWithoutHeader_def finCount_def split: option.splits)
next
  case (CallHeaderDel name)
  then show ?thesis using assms(1)
    by (auto simp: finBalanced_def attached_def localOpen_def later_def keepsFinLast_def
        closedWithoutHeader_def finCount_def split: option.splits)
next
  case CallPanic
  then show ?thesis using assms(1) by (simp add: later_refl keepsFinLast_refl)
qed

lemma calls_finBalanced:
  "finBalanced s \<Longrightarrow> (list_ex isWriteHeader cs \<longrightarrow> \<not> closedWithoutHeader s) \<Longrightarrow>
   (CallPanic \<notin> set cs \<longrightarrow> fst (calls cs s) = Returns ()) \<and> finBalanced (snd (calls cs s)) \<and>
   later s (snd (calls cs s)) \<and> keepsFinLast s (snd (calls cs s))"
proof (induction cs arbitrary: s)
  case Nil
  then show ?case by (simp add: later_refl keepsFinLast_refl)
next
  case (Cons c cs)
  have wh: "isWriteHeader c \<longrightarrow> \<not> closedWithoutHeader s"
    using Cons.prems(2) by simp
  note c = call_finBalanced [OF Cons.prems(1) wh]
  define s1 where "s1 = snd (call c s)"
  have g1: "finBalanced s1" "later s s1" "keepsFinLast s s1"
    using c by (simp_all add: s1_def)
  have wh1: "list_ex isWriteHeader cs \<longrightarrow> \<not> closedWithoutHeader s1"
    using Cons.prems(2) c by (auto simp: s1_def)
  note ih = Cons.IH [OF g1(1) wh1]
  show ?case
  proof (cases "fst (call c s)")
    case (Returns u)
    then have e: "calls (c # cs) s = calls cs s1"
      by (simp add: andThen_cases s1_def)
    show ?thesis
      unfolding e using ih g1 c Returns later_trans keepsFinLast_trans by auto
  next
    case Panics
    then have e: "calls (c # cs) s = (Panics, s1)"
      by (simp add: andThen_cases s1_def)
    have "c = CallPanic" using c Panics by auto
    then show ?thesis unfolding e using g1 by simp
  next
    case Blocks
    then have e: "calls (c # cs) s = (Blocks, s1)"
      by (simp add: andThen_cases s1_def)
    have "c = CallPanic" using c Blocks by auto
    then show ?thesis unfolding e using g1 by simp
  qed
qed


lemma finishRequest_finBalanced:
  assumes "finBalanced s"
  shows "finBalanced (snd (finishRequest flags s)) \<and> later s (snd (finishRequest flags s))"
  using assms
  by (auto simp: finishRequest_def finBalanced_def attached_def localOpen_def later_def
      finCount_def OpenHere_CloseThere CloseThere_closed split: option.splits)

lemma updateHeader_finBalanced:
  assumes "finBalanced s"
  shows "fst (updateHeader hdr s) = Returns () \<and> finBalanced (snd (updateHeader hdr s)) \<and>
         later s (snd (updateHeader hdr s))"
  using assms
  by (auto simp: updateHeader_def finBalanced_def attached_def localOpen_def later_def
      finCount_def split: option.splits)

lemma sent_noFIN_finBalanced:
  assumes "finBalanced s" "noFIN frames"
  shows "finBalanced (s\<lparr>flow := Some fl', sent := sent s @ frames\<rparr>)"
    and "later s (s\<lparr>flow := Some fl', sent := sent s @ frames\<rparr>)"
  using assms
  by (auto simp: finBalanced_def attached_def localOpen_def later_def finCount_def
      noFIN_def split: option.splits)

lemma ReceiveFrame_finBalanced:
  assumes "finBalanced s"
  shows "finBalanced (snd (ReceiveFrame frame s)) \<and> later s (snd (ReceiveFrame frame s))"
proof (cases frame)
  case None
  then show ?thesis using assms by (simp add: later_refl)
next
  case (Some f)
  obtain fl ch where a: "flow s = Some fl" "output s = Some ch"
    using assms by (auto simp: finBalanced_def attached_def)
  show ?thesis
  proof (cases f)
    case (SYN_REPLY flags sid hdr)
    note u = updateHeader_finBalanced [OF assms, of hdr]
    have u1: "finBalanced (snd (updateHeader hdr s))" using u by simp
    show ?thesis
      unfolding Some SYN_REPLY
      using u finishRequest_finBalanced [OF u1, of flags] later_trans
      by (auto simp: andThen_cases)
  next
    case (HEADERS flags sid hdr)
    show ?thesis
      unfolding Some HEADERS
      using updateHeader_finBalanced [OF assms, of hdr]
      by (simp add: andThen_cases)
  next
    case (DATA flags sid payload)
    show ?thesis
    proof (cases "requestBody s")
      case None
      then show ?thesis unfolding Some DATA using assms by (simp add: later_refl)
    next
      case (Some body)
      define s1 where "s1 = s\<lparr>requestBody := Some (body @ payload)\<rparr>"
      define s2 where "s2 =
          s1\<lparr>flow := Some (fst (flow_Receive (streamID s) payload fl)),
             sent := sent s1 @ snd (flow_Receive (streamID s) payload fl)\<rparr>"
      have r: "ReceiveFrame frame s = finishRequest flags s2"
        unfolding \<open>frame = Some f\<close> DATA using a Some
        by (simp add: s2_def s1_def Let_def split: prod.splits)
      have n: "noFIN (snd (flow_Receive (streamID s) payload fl))"
        by (simp add: flow_Receive_def Let_def noFIN_def carriesFIN_simps)
      have g1: "finBalanced s1" "later s s1"
        using assms
        by (auto simp: s1_def finBalanced_def attached_def localOpen_def later_def
            finCount_def split: option.splits)
      have g2: "finBalanced s2" "later s1 s2"
        unfolding s2_def using sent_noFIN_finBalanced [OF g1(1) n] by simp_all
      show ?thesis
        unfolding r
        using finishRequest_finBalanced [OF g2(1), of flags] g1(2) g2(2) later_trans by blast
    qed
  next
    case (WINDOW_UPDATE sid delta)
    obtain fl' frames err where w: "flow_UpdateWindow (streamID s) delta fl = (fl', frames, err)"
      by (cases "flow_UpdateWindow (streamID s) delta fl") auto
    have n: "noFIN frames"
      using w by (auto simp: flow_UpdateWindow_def Let_def noFIN_dataFrames noFIN_nil
          split: if_splits)
    define s1 where "s1 = s\<lparr>flow := Some fl', sent := sent s @ frames\<rparr>"
    have g1: "finBalanced s1" "later s s1"
      unfolding s1_def using sent_noFIN_finBalanced [OF assms n] by simp_all
    have o1: "output s1 = Some ch" using a by (simp add: s1_def)
    have g2: "finBalanced (s1\<lparr>sent := sent s1 @ [RST_STREAM (streamID s1) RST_STREAM_FLOW_CONTROL_ERROR]\<rparr>)"
        "later s1 (s1\<lparr>sent := sent s1 @ [RST_STREAM (streamID s1) RST_STREAM_FLOW_CONTROL_ERROR]\<rparr>)"
      using g1(1)
      by (auto simp: finBalanced_def attached_def localOpen_def later_def finCount_def
          noFIN_def carriesFIN_simps split: option.splits)
    show ?thesis
    proof (cases err)
      case None
      then have "ReceiveFrame frame s = (Returns None, s1)"
        unfolding \<open>frame = Some f\<close> WINDOW_UPDATE using a w by (simp add: s1_def)
      then show ?thesis using g1 by simp
    next
      case (Some e)
      then have "ReceiveFrame frame s =
          (Returns (Some e),
           s1\<lparr>sent := sent s1 @ [RST_STREAM (streamID s1) RST_STREAM_FLOW_CONTROL_ERROR]\<rparr>)"
        unfolding \<open>frame = Some f\<close> WINDOW_UPDATE using a w
        by (simp add: s1_def Let_def send_def andThen_def)
      then show ?thesis using g1 g2 later_trans by auto
    qed
  next
    case (RST_STREAM sid status)
    then show ?thesis using assms Some by (simp add: later_refl)
  next
    case (OtherFrame name)
    then show ?thesis using assms Some by (simp add: later_refl)
  qed
qed

lemma Run_finish_finBalanced:
  assumes "finBalanced s" and "ready s"
  shows "fst (Run_finish s) = Returns None \<and> finBalanced (snd (Run_finish s)) \<and>
         later s (snd (Run_finish s)) \<and> keepsFinLast s (snd (Run_finish s)) \<and>
         \<not> localOpen (snd (Run_finish s))"
proof -
  obtain fl st h ch where a: "flow s = Some fl" "state s = Some st" "header s = Some h"
      "output s = Some ch"
    using assms(1) by (auto simp: finBalanced_def attached_def split: option.splits)
  have ot: "\<not> State_OpenThere st"
    using assms a by (simp add: finBalanced_def attached_def)
  have f: "Run_flush s = (Returns (), s)"
    using a ot by (simp add: Run_flush_def)
  define s1 where "s1 =
      s\<lparr>header := (if \<not> unidirectional s \<and> State_OpenHere st \<and> \<not> wroteHeader s
                     then Some Map.empty else Some h),
        sent := sent s @ spec_trailing s st h\<rparr>"
  have t: "Run_trailing s = (Returns (), s1)"
    unfolding s1_def by (rule Run_trailing_live [OF a(2,3,4)])
  have c: "Run_cleanup s1 = (Returns None, s1\<lparr>state := Some (State_CloseHere st)\<rparr>)"
    using a by (simp add: Run_cleanup_def s1_def)
  have r: "Run_finish s = (Returns None, s1\<lparr>state := Some (State_CloseHere st)\<rparr>)"
    by (simp add: Run_finish_def f t c andThen_def)
  consider (uni) "unidirectional s"
    | (opn) "\<not> unidirectional s" "State_OpenHere st"
    | (clo) "\<not> unidirectional s" "\<not> State_OpenHere st"
    by auto
  then show ?thesis
  proof cases
    case uni
    then have e: "spec_trailing s st h = []" by (simp add: spec_trailing_def)
    show ?thesis
      unfolding r using assms a ot uni
      by (simp add: s1_def e finBalanced_def attached_def localOpen_def later_def
          keepsFinLast_def CloseHere_closed OpenThere_CloseHere)
  next
    case opn
    have nf: "noFIN (sent s)"
      using assms(1) a opn by (simp add: finBalanced_def localOpen_def)
    obtain f where e: "spec_trailing s st h = [f]" "carriesFIN f"
      using opn by (cases "wroteHeader s") (simp_all add: spec_trailing_def carriesFIN_simps)
    have k: "filter carriesFIN (sent s) = []" using nf by (simp add: noFIN_def)
    show ?thesis
      unfolding r using assms a ot opn nf e(2)
      by (simp add: s1_def e(1) finBalanced_def attached_def localOpen_def later_def
          keepsFinLast_def finCount_def k oneFINLast_snoc CloseHere_closed OpenThere_CloseHere)
  next
    case clo
    then have e: "spec_trailing s st h = []" by (simp add: spec_trailing_def)
    have cs: "State_CloseHere st = st" using clo(2) by (cases st) simp_all
    show ?thesis
      unfolding r using assms a ot clo
      by (simp add: s1_def e cs finBalanced_def attached_def localOpen_def later_def
          keepsFinLast_def finCount_def)
  qed
qed


lemma ServeHTTP_handlerCalls:
  "handler s \<noteq> None \<Longrightarrow> ServeHTTP mux s = calls (handlerCalls mux s) s"
  by (auto simp: ServeHTTP_def handlerCalls_def split: option.splits Handler.splits)

lemma ServeHTTP_finBalanced:
  assumes "finBalanced s"
      and "list_ex isWriteHeader (handlerCalls mux s) \<longrightarrow> \<not> closedWithoutHeader s"
  shows "(handler s \<noteq> None \<and> CallPanic \<notin> set (handlerCalls mux s) \<longrightarrow>
            fst (ServeHTTP mux s) = Returns ()) \<and>
         finBalanced (snd (ServeHTTP mux s)) \<and> later s (snd (ServeHTTP mux s)) \<and>
         keepsFinLast s (snd (ServeHTTP mux s))"
proof (cases "handler s")
  case None
  then show ?thesis using assms(1) by (simp add: ServeHTTP_def later_refl keepsFinLast_refl)
next
  case (Some h)
  then have e: "ServeHTTP mux s = calls (handlerCalls mux s) s"
    by (simp add: ServeHTTP_handlerCalls)
  show ?thesis unfolding e using calls_finBalanced [OF assms] by simp
qed

lemma Run_serve_finBalanced:
  assumes "finBalanced s" and "ready s"
      and "list_ex isWriteHeader (handlerCalls mux s) \<longrightarrow> \<not> closedWithoutHeader s"
  shows "(handler s \<noteq> None \<and> CallPanic \<notin> set (handlerCalls mux s) \<longrightarrow>
            fst (Run_serve mux s) = Returns None \<and> \<not> localOpen (snd (Run_serve mux s))) \<and>
         finBalanced (snd (Run_serve mux s)) \<and> later s (snd (Run_serve mux s)) \<and>
         keepsFinLast s (snd (Run_serve mux s))"
proof -
  define s2 where "s2 = snd (ServeHTTP mux s)"
  note sv = ServeHTTP_finBalanced [OF assms(1,3)]
  have g2: "finBalanced s2" "later s s2" "keepsFinLast s s2"
    using sv by (simp_all add: s2_def)
  have r2: "ready s2" using g2(2) assms(2) by (simp add: later_def)
  note fin = Run_finish_finBalanced [OF g2(1) r2]
  show ?thesis
  proof (cases "fst (ServeHTTP mux s)")
    case (Returns u)
    then have e: "Run_serve mux s = Run_finish s2"
      by (simp add: Run_serve_def andThen_cases s2_def)
    show ?thesis
      unfolding e using fin g2 later_trans keepsFinLast_trans by blast
  next
    case Panics
    then have e: "Run_serve mux s = (Panics, s2)"
      by (simp add: Run_serve_def andThen_cases s2_def)
    show ?thesis unfolding e using g2 sv Panics by auto
  next
    case Blocks
    then have e: "Run_serve mux s = (Blocks, s2)"
      by (simp add: Run_serve_def andThen_cases s2_def)
    show ?thesis unfolding e using g2 sv Blocks by auto
  qed
qed

lemma Run_prepare_shape:
  "\<exists>body req. snd (Run_prepare s) = s\<lparr>requestBody := body, request := req\<rparr> \<and>
     (request s \<noteq> None \<longrightarrow> fst (Run_prepare s) = Returns ())"
proof (cases "requestBody s")
  case None
  show ?thesis
  proof (cases "request s")
    case n: None
    have "snd (Run_prepare s) = s\<lparr>requestBody := Some [], request := request s\<rparr>"
      using None n by (cases s) (simp add: Run_prepare_def)
    then show ?thesis using n by blast
  next
    case (Some r)
    have "snd (Run_prepare s) =
        s\<lparr>requestBody := Some [], request := Some (r\<lparr>Body := Some ReadCloser_requestBody\<rparr>)\<rparr>"
        "fst (Run_prepare s) = Returns ()"
      using None Some by (simp_all add: Run_prepare_def)
    then show ?thesis by blast
  qed
next
  case (Some body)
  show ?thesis
  proof (cases "request s")
    case None
    have "snd (Run_prepare s) = s\<lparr>requestBody := requestBody s, request := request s\<rparr>"
      using Some None by (cases s) (simp add: Run_prepare_def)
    then show ?thesis using None by blast
  next
    case r: (Some r)
    show ?thesis
    proof (cases "Body r = None")
      case True
      have "snd (Run_prepare s) =
          s\<lparr>requestBody := Some [], request := Some (r\<lparr>Body := Some ReadCloser_requestBody\<rparr>)\<rparr>"
          "fst (Run_prepare s) = Returns ()"
        using Some r True by (simp_all add: Run_prepare_def)
      then show ?thesis by blast
    next
      case False
      have "Run_prepare s = (Returns (), s)"
        using Some r False by (auto simp: Run_prepare_def)
      then have "snd (Run_prepare s) = s\<lparr>requestBody := requestBody s, request := request s\<rparr>"
          "fst (Run_prepare s) = Returns ()"
        by simp_all
      then show ?thesis by blast
    qed
  qed
qed

lemma Run_finBalanced:
  assumes "finBalanced s"
      and "list_ex isWriteHeader (handlerCalls mux s) \<longrightarrow> \<not> closedWithoutHeader s"
  shows "(request s \<noteq> None \<and> handler s \<noteq> None \<and> ready s \<and>
          CallPanic \<notin> set (handlerCalls mux s) \<longrightarrow>
            fst (Run mux s) = Returns None \<and> \<not> localOpen (snd (Run mux s))) \<and>
         finBalanced (snd (Run mux s)) \<and> later s (snd (Run mux s)) \<and>
         keepsFinLast s (snd (Run mux s))"
proof -
  obtain body req where p: "snd (Run_prepare s) = s\<lparr>requestBody := body, request := req\<rparr>"
      and pr: "request s \<noteq> None \<longrightarrow> fst (Run_prepare s) = Returns ()"
    using Run_prepare_shape [of s] by blast
  define s1 where "s1 = s\<lparr>requestBody := body, request := req\<rparr>"
  have g1: "finBalanced s1" "later s s1" "keepsFinLast s s1"
    using assms(1)
    by (auto simp: s1_def finBalanced_def attached_def localOpen_def later_def keepsFinLast_def
        finCount_def split: option.splits)
  have h1: "handlerCalls mux s1 = handlerCalls mux s" "handler s1 = handler s"
      "ready s1 = ready s" "closedWithoutHeader s1 = closedWithoutHeader s"
    by (simp_all add: s1_def handlerCalls_def closedWithoutHeader_def localOpen_def)
  have wh1: "list_ex isWriteHeader (handlerCalls mux s1) \<longrightarrow> \<not> closedWithoutHeader s1"
    using assms(2) h1 by simp
  show ?thesis
  proof (cases "fst (Run_prepare s) = Returns () \<and> ready s1")
    case True
    then have e: "Run_body mux s = Run_serve mux s1"
      using p by (simp add: Run_body_def andThen_cases s1_def)
    note sv = Run_serve_finBalanced [OF g1(1) _ wh1]
    have sv': "(handler s1 \<noteq> None \<and> CallPanic \<notin> set (handlerCalls mux s1) \<longrightarrow>
            fst (Run_serve mux s1) = Returns None \<and> \<not> localOpen (snd (Run_serve mux s1))) \<and>
         finBalanced (snd (Run_serve mux s1)) \<and> later s1 (snd (Run_serve mux s1)) \<and>
         keepsFinLast s1 (snd (Run_serve mux s1))"
      using sv True by blast
    have a: "finBalanced (snd (Run mux s))" "later s (snd (Run mux s))"
        "keepsFinLast s (snd (Run mux s))"
      unfolding Run_snd e using sv' g1 later_trans keepsFinLast_trans by blast+
    have b: "request s \<noteq> None \<and> handler s \<noteq> None \<and> ready s \<and>
          CallPanic \<notin> set (handlerCalls mux s) \<longrightarrow>
            fst (Run mux s) = Returns None \<and> \<not> localOpen (snd (Run mux s))"
      unfolding Run_snd using sv' h1 Run_fst [of mux s None] e by auto
    show ?thesis using a b by blast
  next
    case False
    have "snd (Run_body mux s) = s1"
      using False p
      by (cases "fst (Run_prepare s)") (auto simp: Run_body_def andThen_cases s1_def)
    then have a: "finBalanced (snd (Run mux s))" "later s (snd (Run mux s))"
        "keepsFinLast s (snd (Run mux s))"
      unfolding Run_snd using g1 by simp_all
    have b: "\<not> (request s \<noteq> None \<and> ready s)"
      using False pr h1 by auto
    show ?thesis using a b by blast
  qed
qed

lemma operation_finBalanced:
  assumes "finBalanced s"
      and "callsWriteHeader (handlerCalls mux s) x \<longrightarrow> \<not> closedWithoutHeader s"
  shows "finBalanced (operation mux x s) \<and> later s (operation mux x s) \<and>
         (\<not> isReceiveFrame x \<longrightarrow> keepsFinLast s (operation mux x s))"
proof (cases x)
  case (OpWriteHeader code)
  then show ?thesis using WriteHeader_finBalanced [OF assms(1), of code] assms(2) by simp
next
  case (OpWrite bs)
  then show ?thesis using Write_finBalanced [OF assms(1), of bs] by simp
next
  case (OpReceiveFrame frame)
  then show ?thesis using ReceiveFrame_finBalanced [OF assms(1), of frame] by simp
next
  case OpRun
  then show ?thesis using Run_finBalanced [OF assms(1), of mux] assms(2) by simp
qed

lemma operations_finBalanced:
  "finBalanced s \<Longrightarrow> noLateWriteHeader mux xs s \<Longrightarrow>
   finBalanced (operations mux xs s) \<and> later s (operations mux xs s)"
proof (induction xs arbitrary: s)
  case Nil
  then show ?case by (simp add: later_refl)
next
  case (Cons x xs)
  have c: "callsWriteHeader (handlerCalls mux s) x \<longrightarrow> \<not> closedWithoutHeader s"
      "noLateWriteHeader mux xs (operation mux x s)"
    using Cons.prems(2) by simp_all
  note o = operation_finBalanced [OF Cons.prems(1) c(1)]
  have g: "finBalanced (operation mux x s)" "later s (operation mux x s)"
    using o by simp_all
  show ?case
    using Cons.IH [OF g(1) c(2)] g(2) later_trans by auto
qed

lemma operations_append:
  "operations mux (xs @ ys) s = operations mux ys (operations mux xs s)"
  by (induction xs arbitrary: s) simp_all

lemma noLateWriteHeader_append:
  "noLateWriteHeader mux (xs @ ys) s =
     (noLateWriteHeader mux xs s \<and> noLateWriteHeader mux ys (operations mux xs s))"
  by (induction xs arbitrary: s) auto

text \<open>
  C4 (as amended). Take a stream in service (output channel, header map, flow
  controller and state not nil, \<^verbatim>\<open>s.ready\<close> closed only with the remote side
  closed) that has sent no frame with \<^verbatim>\<open>FIN\<close> and is unidirectional or has its
  local side open, and any sequence of calls of \<^verbatim>\<open>WriteHeader\<close>, \<^verbatim>\<open>Write\<close>,
  \<^verbatim>\<open>ReceiveFrame\<close> and \<^verbatim>\<open>Run\<close>, with a handler that may panic, in which
  \<^verbatim>\<open>WriteHeader\<close> is not called (by the sequence or by a handler) once \<^verbatim>\<open>Run\<close>
  has closed the stream with a \<^verbatim>\<open>SYN_REPLY\<close> of its own. Then at most one of the
  frames the stream has sent carries \<^verbatim>\<open>FIN\<close>. A call of \<^verbatim>\<open>WriteHeader\<close>,
  \<^verbatim>\<open>Write\<close> or \<^verbatim>\<open>Run\<close> that is made before a frame with \<^verbatim>\<open>FIN\<close> was sent
  leaves no such frame, or exactly one, which is the last frame sent when the call
  ends; a call made after sends nothing. When a \<^verbatim>\<open>Run\<close> of the sequence finds the
  request, the handler and \<^verbatim>\<open>s.ready\<close> closed on a stream that is not
  unidirectional, and its handler does not panic, it returns \<^verbatim>\<open>nil\<close>, and at the
  end of the sequence exactly one frame sent carries \<^verbatim>\<open>FIN\<close> and the local side
  is closed.
\<close>

theorem one_FIN_per_stream:
  assumes "attached s" and "noFIN (sent s)" and "unidirectional s \<or> localOpen s"
      and "noLateWriteHeader mux (before @ x # after) s"
  shows "finCount (operations mux (before @ x # after) s) \<le> 1 \<and>
         (\<not> isReceiveFrame x \<longrightarrow>
            keepsFinLast (operations mux before s) (operation mux x (operations mux before s))) \<and>
         (x = OpRun \<and> \<not> unidirectional s \<and>
          request (operations mux before s) \<noteq> None \<and>
          handler (operations mux before s) \<noteq> None \<and>
          ready (operations mux before s) \<and>
          CallPanic \<notin> set (handlerCalls mux (operations mux before s)) \<longrightarrow>
            fst (Run mux (operations mux before s)) = Returns None \<and>
            finCount (operations mux (before @ x # after) s) = 1 \<and>
            \<not> localOpen (operations mux (before @ x # after) s))"
proof -
  define s1 where "s1 = operations mux before s"
  define s2 where "s2 = operation mux x s1"
  define s3 where "s3 = operations mux after s2"
  have e: "operations mux (before @ x # after) s = s3"
    by (simp add: operations_append s1_def s2_def s3_def)
  have g0: "finBalanced s" using assms(1-3) by (auto simp: finBalanced_def)
  have n: "noLateWriteHeader mux before s"
      "callsWriteHeader (handlerCalls mux s1) x \<longrightarrow> \<not> closedWithoutHeader s1"
      "noLateWriteHeader mux after s2"
    using assms(4) by (simp_all add: noLateWriteHeader_append s1_def s2_def)
  have g1: "finBalanced s1" "later s s1"
    using operations_finBalanced [OF g0 n(1)] by (simp_all add: s1_def)
  note o = operation_finBalanced [OF g1(1) n(2)]
  have g2: "finBalanced s2" "later s1 s2"
    using o by (simp_all add: s2_def)
  have g3: "finBalanced s3" "later s2 s3"
    using operations_finBalanced [OF g2(1) n(3)] by (simp_all add: s3_def)
  have a: "finCount s3 \<le> 1"
    using g3(1) by (auto simp: finBalanced_def finCount_def noFIN_def split: if_splits)
  have b: "\<not> isReceiveFrame x \<longrightarrow> keepsFinLast s1 s2"
    using o by (simp add: s2_def)
  have c: "x = OpRun \<and> \<not> unidirectional s \<and> request s1 \<noteq> None \<and> handler s1 \<noteq> None \<and>
      ready s1 \<and> CallPanic \<notin> set (handlerCalls mux s1) \<longrightarrow>
        fst (Run mux s1) = Returns None \<and> finCount s3 = 1 \<and> \<not> localOpen s3"
  proof (intro impI)
    assume h: "x = OpRun \<and> \<not> unidirectional s \<and> request s1 \<noteq> None \<and> handler s1 \<noteq> None \<and>
      ready s1 \<and> CallPanic \<notin> set (handlerCalls mux s1)"
    have wh: "list_ex isWriteHeader (handlerCalls mux s1) \<longrightarrow> \<not> closedWithoutHeader s1"
      using n(2) h by simp
    note r = Run_finBalanced [OF g1(1) wh]
    have r1: "fst (Run mux s1) = Returns None" "\<not> localOpen s2"
      using r h by (simp_all add: s2_def)
    have u: "\<not> unidirectional s3" "\<not> localOpen s3"
      using g1(2) g2(2) g3(2) h r1(2) by (auto simp: later_def)
    have "finCount s3 = 1" using g3(1) u by (simp add: finBalanced_def)
    then show "fst (Run mux s1) = Returns None \<and> finCount s3 = 1 \<and> \<not> localOpen s3"
      using r1(1) u(2) by simp
  qed
  show ?thesis
    unfolding e s1_def [symmetric] s2_def [symmetric] using a b c by blast
qed

theorem one_FIN_per_stream_witness:
  "attached openStream \<and> noFIN (sent openStream) \<and> localOpen openStream \<and>
   noLateWriteHeader [CallWrite [104, 105]]
     ([OpReceiveFrame (Some (DATA FLAG_FIN 5 [1, 2, 3]))] @ OpRun #
      [OpReceiveFrame (Some (WINDOW_UPDATE 5 10))]) openStream \<and>
   sent (operations [CallWrite [104, 105]]
     ([OpReceiveFrame (Some (DATA FLAG_FIN 5 [1, 2, 3]))] @ OpRun #
      [OpReceiveFrame (Some (WINDOW_UPDATE 5 10))]) openStream) =
     [SYN_REPLY 0 5
        (sentHeader (Map.empty('':status'' \<mapsto> [''200''], '':version'' \<mapsto> [''HTTP/1.1'']))),
      DATA 0 5 [104, 105],
      DATA FLAG_FIN 5 []] \<and>
   fst (Run [CallWrite [104, 105]]
     (operations [CallWrite [104, 105]] [OpReceiveFrame (Some (DATA FLAG_FIN 5 [1, 2, 3]))]
        openStream)) = Returns None \<and>
   finCount (operations [CallWrite [104, 105]]
     ([OpReceiveFrame (Some (DATA FLAG_FIN 5 [1, 2, 3]))] @ OpRun #
      [OpReceiveFrame (Some (WINDOW_UPDATE 5 10))]) openStream) = 1 \<and>
   keepsFinLast
     (operations [CallWrite [104, 105]] [OpReceiveFrame (Some (DATA FLAG_FIN 5 [1, 2, 3]))]
        openStream)
     (operation [CallWrite [104, 105]] OpRun
        (operations [CallWrite [104, 105]] [OpReceiveFrame (Some (DATA FLAG_FIN 5 [1, 2, 3]))]
           openStream))"
proof -
  let ?mux = "[CallWrite [104, 105]]"
  let ?before = "[OpReceiveFrame (Some (DATA FLAG_FIN 5 [1, 2, 3]))]"
  let ?after = "[OpReceiveFrame (Some (WINDOW_UPDATE 5 10))]"
  have r: "operations ?mux ?before openStream =
      liveStream\<lparr>requestBody := Some [1, 2, 3],
        flow := Some ((newFlowControl 65536)\<lparr>recv_window := 65533\<rparr>)\<rparr>"
    by (simp add: openStream_def liveStream_def newFlowControl_def flow_Receive_def Let_def
        finishRequest_def FIN_def FLAG_FIN_def)
  have hc: "handlerCalls ?mux (operations ?mux ?before openStream) = ?mux"
    unfolding r by (simp add: handlerCalls_def liveStream_def)
  have h: "attached openStream" "noFIN (sent openStream)"
      "unidirectional openStream \<or> localOpen openStream"
    by (simp_all add: attached_def localOpen_def openStream_def liveStream_def noFIN_def)
  have lo: "localOpen openStream"
    by (simp add: localOpen_def openStream_def liveStream_def)
  have n: "noLateWriteHeader ?mux (?before @ OpRun # ?after) openStream"
    using hc by simp
  have p: "\<not> isReceiveFrame OpRun" "\<not> unidirectional openStream"
      "request (operations ?mux ?before openStream) \<noteq> None"
      "handler (operations ?mux ?before openStream) \<noteq> None"
      "ready (operations ?mux ?before openStream)"
      "CallPanic \<notin> set (handlerCalls ?mux (operations ?mux ?before openStream))"
    unfolding hc unfolding r by (simp_all add: openStream_def liveStream_def)
  have e: "sent (operations ?mux (?before @ OpRun # ?after) openStream) =
     [SYN_REPLY 0 5
        (sentHeader (Map.empty('':status'' \<mapsto> [''200''], '':version'' \<mapsto> [''HTTP/1.1'']))),
      DATA 0 5 [104, 105],
      DATA FLAG_FIN 5 []]"
    unfolding operations_append r
    by (simp add: Run_def Run_body_def Run_serve_def Run_prepare_def ServeHTTP_def Run_finish_def
        Run_flush_def Run_trailing_def Run_cleanup_def flow_Paused_def
        liveStream_def andThen_def Write_def closed_def exampleConn_def
        State_ClosedHere_def WriteHeader_def Let_def send_def Itoa_200 writeHeader_def
        writeChunks.simps MAX_DATA_SIZE_def flowWrite_def flow_Write_def newFlowControl_def
        dataFrames.simps signed_divide_int_def flow_UpdateWindow_def)
  note t = one_FIN_per_stream [OF h n]
  show ?thesis
    using h(1,2) lo n p e t by blast
qed

text \<open>
  The three ways in which the claim as it was stated fails. After \<^verbatim>\<open>Run\<close> has sent
  its trailing \<^verbatim>\<open>SYN_REPLY\<close> with \<^verbatim>\<open>FIN\<close>, a \<^verbatim>\<open>WINDOW_UPDATE\<close> that overflows
  the send window makes \<^verbatim>\<open>ReceiveFrame\<close> send an \<^verbatim>\<open>RST_STREAM\<close>: the frame with
  \<^verbatim>\<open>FIN\<close> is not the last. After \<^verbatim>\<open>Run\<close> has sent that \<^verbatim>\<open>SYN_REPLY\<close>, which
  leaves \<^verbatim>\<open>wroteHeader\<close> unset, \<^verbatim>\<open>WriteHeader(204)\<close> sends a second
  \<^verbatim>\<open>SYN_REPLY\<close> with \<^verbatim>\<open>FIN\<close>: two frames carry \<^verbatim>\<open>FIN\<close>. When the handler
  panics, \<^verbatim>\<open>Run\<close> returns \<^verbatim>\<open>nil\<close> on a stream that is not unidirectional and has
  sent nothing, with the local side still open: no frame carries \<^verbatim>\<open>FIN\<close>.
\<close>

theorem FIN_lifetime_counterexample:
  "fst (Run [] nearlyFullStream) = Returns None \<and>
   fst (ReceiveFrame (Some (WINDOW_UPDATE 5 10)) (snd (Run [] nearlyFullStream))) =
     Returns (Some FlowControlError) \<and>
   sent (snd (ReceiveFrame (Some (WINDOW_UPDATE 5 10)) (snd (Run [] nearlyFullStream)))) =
     [SYN_REPLY FLAG_FIN 5
        (sentHeader (Map.empty('':status'' \<mapsto> [''200''], '':version'' \<mapsto> [''HTTP/1.1'']))),
      RST_STREAM 5 RST_STREAM_FLOW_CONTROL_ERROR] \<and>
   carriesFIN (SYN_REPLY FLAG_FIN 5
        (sentHeader (Map.empty('':status'' \<mapsto> [''200''], '':version'' \<mapsto> [''HTTP/1.1''])))) \<and>
   \<not> carriesFIN (last (sent (snd (ReceiveFrame (Some (WINDOW_UPDATE 5 10))
        (snd (Run [] nearlyFullStream)))))) \<and>
   fst (Run [] liveStream) = Returns None \<and>
   fst (WriteHeader 204 (snd (Run [] liveStream))) = Returns () \<and>
   sent (snd (WriteHeader 204 (snd (Run [] liveStream)))) =
     [SYN_REPLY FLAG_FIN 5
        (sentHeader (Map.empty('':status'' \<mapsto> [''200''], '':version'' \<mapsto> [''HTTP/1.1'']))),
      SYN_REPLY FLAG_FIN 5
        (sentHeader (Map.empty('':status'' \<mapsto> [''204''], '':version'' \<mapsto> [''HTTP/1.1''])))] \<and>
   length (filter carriesFIN (sent (snd (WriteHeader 204 (snd (Run [] liveStream)))))) = 2 \<and>
   \<not> unidirectional liveStream \<and>
   Run [CallPanic] liveStream = (Returns None, liveStream) \<and>
   sent liveStream = [] \<and> state liveStream = Some HALF_CLOSED_REMOTE \<and>
   \<not> State_ClosedHere HALF_CLOSED_REMOTE"
  by (simp add: Run_def Run_body_def Run_serve_def Run_prepare_def ServeHTTP_def Run_finish_def
      Run_flush_def Run_trailing_def Run_cleanup_def flow_Paused_def
      nearlyFullStream_def liveStream_def andThen_def send_def newFlowControl_def
      flow_UpdateWindow_def carriesFIN_def FIN_def FLAG_FIN_def WriteHeader_def Let_def
      Itoa_204 State_ClosedHere_def)

end
